theory Spec2Isabelle
  imports Main "HOL-Library.Char_ord" "HOL-Library.List_Lexorder" "HOL-Library.AList"
begin

section \<open>Strings and errors\<close>

text \<open>
  Identifiers (enum, table, column and schema names) are \<^typ>\<open>string\<close>s. The exceptions
  the modelled functions raise are values of \<open>error\<close>; a function that can raise returns
  \<open>error + 'a\<close>. \<open>ModelFileException\<close> is the \<open>DatabaseModelException\<close> class of the
  validation module, \<open>DatabaseModelException\<close> the one of the wrappers module; messages
  built from file contents are lists of code points, and \<open>SystemExitText\<close> is \<open>sys.exit\<close>
  after printing such a message.
\<close>

datatype error =
    DatabaseModelException string
  | IndexError
  | AttributeError
  | AssertionError
  | TypeError
  | InvalidRequestError string
  | NoSuchModuleError string
  | SystemExit string nat
  | SyntaxError
  | ModelFileException "nat list"
  | SystemExitText "nat list" nat
  | ProgrammingError string

text \<open>Python's \<open>sep.join(xs)\<close>.\<close>

fun join :: "'a list \<Rightarrow> 'a list list \<Rightarrow> 'a list" where
  "join sep [] = []"
| "join sep [x] = x"
| "join sep (x # y # ys) = x @ sep @ join sep (y # ys)"

text \<open>Python's \<open>str(n)\<close> for a non-negative integer.\<close>

definition digit_char :: "nat \<Rightarrow> char" where
  "digit_char d = char_of (48 + d)"

fun str_nat :: "nat \<Rightarrow> string" where
  "str_nat n = (if n < 10 then [digit_char n] else str_nat (n div 10) @ [digit_char (n mod 10)])"

declare str_nat.simps [simp del]

text \<open>Python's \<open>enumerate(xs, start=0)\<close>.\<close>

definition enumerate0 :: "'a list \<Rightarrow> (nat \<times> 'a) list" where
  "enumerate0 xs = List.enumerate 0 xs"

section \<open>Enumerations (sqlalchemywrappers.Enum)\<close>

text \<open>
  An \<open>Enum\<close> object: \<open>name\<close>, \<open>args\<close>, \<open>_values\<close>, and the attributes that
  \<open>setattr(self, element, index)\<close> adds. \<open>kwargs\<close> is stored and never read.
\<close>

record Enum =
  enum_name :: string
  enum_args :: "string list"
  enum_values :: "string list"
  enum_attrs :: "(string \<times> nat) list"

text \<open>
  The attribute names every Python 3 object answers \<open>hasattr\<close> for, through \<open>object\<close> and
  through being an instance of a class defined in a module.
\<close>

definition object_attrs :: "string list" where
  "object_attrs =
    [''__class__'', ''__delattr__'', ''__dict__'', ''__dir__'', ''__doc__'', ''__eq__'',
     ''__format__'', ''__ge__'', ''__getattribute__'', ''__gt__'', ''__hash__'', ''__init__'',
     ''__init_subclass__'', ''__le__'', ''__lt__'', ''__module__'', ''__ne__'', ''__new__'',
     ''__reduce__'', ''__reduce_ex__'', ''__repr__'', ''__setattr__'', ''__sizeof__'',
     ''__str__'', ''__subclasshook__'', ''__weakref__'']"

text \<open>
  \<open>hasattr(self, element)\<close> inside \<open>Enum.__init__\<close>: the four attributes assigned at the top
  of \<open>__init__\<close>, the value names set so far, the methods of the class, and \<open>object\<close>'s.
\<close>

definition Enum_instance_attrs :: "string list" where
  "Enum_instance_attrs = [''name'', ''args'', ''kwargs'', ''_values'']"

definition Enum_class_attrs :: "string list" where
  "Enum_class_attrs = [''__call__'', ''get_constraint''] @ object_attrs"

definition Enum_hasattr :: "Enum \<Rightarrow> string \<Rightarrow> bool" where
  "Enum_hasattr self a \<longleftrightarrow>
     a \<in> set Enum_instance_attrs \<or> a \<in> set (map fst (enum_attrs self)) \<or> a \<in> set Enum_class_attrs"

text \<open>The loop of \<open>Enum.__init__\<close> over \<open>enumerate(args, start=0)\<close>.\<close>

fun Enum_init_loop :: "Enum \<Rightarrow> (nat \<times> string) list \<Rightarrow> error + Enum" where
  "Enum_init_loop self [] = Inr self"
| "Enum_init_loop self ((index, element) # rest) =
     (if Enum_hasattr self element
      then Inl (DatabaseModelException
                  (element @ '' enum value already defined for enum '' @ enum_name self))
      else Enum_init_loop
             (self\<lparr>enum_attrs := enum_attrs self @ [(element, index)],
                   enum_values := enum_values self @ [element]\<rparr>) rest)"

text \<open>
  \<open>_EnumCollection\<close>, an \<open>OrderedDict\<close> subclass: the attributes set by \<open>setattr\<close> and the
  dictionary items. \<open>hasattr\<close> also sees the methods of \<open>OrderedDict\<close> and of the class.
\<close>

record EnumCollection =
  ec_attrs :: "(string \<times> Enum) list"
  ec_items :: "(string \<times> Enum) list"

definition EnumCollection_class_attrs :: "string list" where
  "EnumCollection_class_attrs =
     [''add_enum'', ''clear'', ''copy'', ''fromkeys'', ''get'', ''items'', ''keys'',
      ''move_to_end'', ''pop'', ''popitem'', ''setdefault'', ''update'', ''values'',
      ''__contains__'', ''__delitem__'', ''__getitem__'', ''__iter__'', ''__len__'',
      ''__reversed__'', ''__setitem__''] @ object_attrs"

definition EnumCollection_hasattr :: "EnumCollection \<Rightarrow> string \<Rightarrow> bool" where
  "EnumCollection_hasattr self a \<longleftrightarrow>
     a \<in> set (map fst (ec_attrs self)) \<or> a \<in> set EnumCollection_class_attrs"

definition add_enum :: "EnumCollection \<Rightarrow> Enum \<Rightarrow> error + EnumCollection" where
  "add_enum self enum =
     (if EnumCollection_hasattr self (enum_name enum)
      then Inl (DatabaseModelException (enum_name enum @ '' enum already defined''))
      else Inr (self\<lparr>ec_attrs := AList.update (enum_name enum) enum (ec_attrs self),
                      ec_items := AList.update (enum_name enum) enum (ec_items self)\<rparr>))"

text \<open>
  \<open>Enum.__init__(name, metadata, *args)\<close>. \<open>metadata.add_enum(self)\<close> runs before the loop
  and registers a reference to the object under construction; the collection therefore
  shows the values the loop appends. The model checks registration first (so that its
  error comes first) and stores the object as the loop leaves it.
\<close>

definition Enum_init :: "string \<Rightarrow> EnumCollection \<Rightarrow> string list \<Rightarrow> error + (Enum \<times> EnumCollection)" where
  "Enum_init name metadata args =
     (let self = \<lparr>enum_name = name, enum_args = args, enum_values = [], enum_attrs = []\<rparr> in
      case add_enum metadata self of
        Inl e \<Rightarrow> Inl e
      | Inr _ \<Rightarrow>
          (case Enum_init_loop self (enumerate0 args) of
             Inl e \<Rightarrow> Inl e
           | Inr self' \<Rightarrow>
               (case add_enum metadata self' of
                  Inl e \<Rightarrow> Inl e
                | Inr metadata' \<Rightarrow> Inr (self', metadata'))))"

section \<open>Columns, tables and the check constraint of an enum column\<close>

datatype coltype =
    IntegerEnum Enum
  | Boolean
  | DateTime
  | MYSQL_DATETIME nat
  | Integer
  | BigInteger
  | Numeric
  | String nat
  | Text
  | LargeBinary
  | VARBINARY
  | BINARY

record Column =
  col_name :: string
  col_type :: coltype
  col_nullable :: bool
  col_unique :: bool

record CheckConstraint =
  ck_text :: string
  ck_name :: string

text \<open>
  \<open>Enum.get_constraint(column)\<close>; \<open>column.table.name\<close> and \<open>column.name\<close> are passed as
  the two strings.
\<close>

definition get_constraint :: "Enum \<Rightarrow> string \<Rightarrow> string \<Rightarrow> CheckConstraint" where
  "get_constraint self table_name column_name =
     (let values = join '','' (map str_nat [0 ..< length (enum_values self)]);
          check_text = column_name @ '' in ('' @ values @ '')'';
          check_name = ''ck_'' @ table_name @ ''_'' @ column_name
      in \<lparr>ck_text = check_text, ck_name = check_name\<rparr>)"

record Table =
  table_name :: string
  table_columns :: "Column list"
  table_constraints :: "CheckConstraint list"

text \<open>
  The ad-hoc \<open>ColumnNames\<close> class is its attribute dictionary; \<open>_TableCollection\<close> holds one
  such object per table as an attribute named after the table.
\<close>

type_synonym ColumnNames = "(string \<times> string) list"

record TableCollection =
  tc_attrs :: "(string \<times> ColumnNames) list"

definition TableCollection_class_attrs :: "string list" where
  "TableCollection_class_attrs = [''add_table''] @ object_attrs"

definition TableCollection_hasattr :: "TableCollection \<Rightarrow> string \<Rightarrow> bool" where
  "TableCollection_hasattr self a \<longleftrightarrow>
     a \<in> set (map fst (tc_attrs self)) \<or> a \<in> set TableCollection_class_attrs"

definition add_table :: "TableCollection \<Rightarrow> ColumnNames \<Rightarrow> error + TableCollection" where
  "add_table self table =
     (case map_of table ''_table_name'' of
        None \<Rightarrow> Inl AttributeError
      | Some n \<Rightarrow>
          if TableCollection_hasattr self n
          then Inl (DatabaseModelException (n @ '' table already defined''))
          else Inr (self\<lparr>tc_attrs := AList.update n table (tc_attrs self)\<rparr>))"

text \<open>
  The loop of \<open>Table.__init__\<close> over the columns: each column name becomes an attribute of
  the name container, and an enum column appends its check constraint to the table.
\<close>

fun Table_init_loop :: "Table \<Rightarrow> ColumnNames \<Rightarrow> Column list \<Rightarrow> Table \<times> ColumnNames" where
  "Table_init_loop self columns [] = (self, columns)"
| "Table_init_loop self columns (column # rest) =
     (let columns' = AList.update (col_name column)
                       (table_name self @ ''.'' @ col_name column) columns;
          self' = (case col_type column of
                     IntegerEnum field_data \<Rightarrow>
                       self\<lparr>table_constraints := table_constraints self @
                              [get_constraint field_data (table_name self) (col_name column)]\<rparr>
                   | _ \<Rightarrow> self)
      in Table_init_loop self' columns' rest)"

text \<open>
  \<open>Table.__init__(name, metadata, *args)\<close>, with the columns and the constraints given
  among \<open>args\<close>. The name container is registered before the loop, by reference; as for
  enums, the model checks first and stores the container as the loop leaves it.
\<close>

definition Table_init ::
  "string \<Rightarrow> TableCollection \<Rightarrow> Column list \<Rightarrow> CheckConstraint list \<Rightarrow> error + (Table \<times> TableCollection)" where
  "Table_init name table_names cols cons =
     (let self = \<lparr>table_name = name, table_columns = cols, table_constraints = cons\<rparr>;
          columns = [(''_table_name'', name)]
      in case add_table table_names columns of
           Inl e \<Rightarrow> Inl e
         | Inr _ \<Rightarrow>
             (let (self', columns') = Table_init_loop self columns (table_columns self)
              in Inr (self', table_names\<lparr>tc_attrs := AList.update name columns' (tc_attrs table_names)\<rparr>)))"

section \<open>Template data of an enumeration (codegen.NumericEnumTemplateData)\<close>

record EnumValue =
  valname :: string
  valnum :: nat
  val_last :: bool

record NumericEnumTemplateData =
  td_name :: string
  td_num :: nat
  td_values :: "EnumValue list"
  td_package :: "string option"
  td_conv_package :: "string option"

definition NumericEnumTemplateData_init :: "string \<Rightarrow> NumericEnumTemplateData" where
  "NumericEnumTemplateData_init name =
     \<lparr>td_name = name, td_num = 0, td_values = [], td_package = None, td_conv_package = None\<rparr>"

text \<open>A dictionary without the \<open>last\<close> key has \<open>val_last = False\<close>.\<close>

definition add_value :: "NumericEnumTemplateData \<Rightarrow> string \<Rightarrow> NumericEnumTemplateData" where
  "add_value self name =
     self\<lparr>td_values := td_values self @ [\<lparr>valname = name, valnum = td_num self, val_last = False\<rparr>],
          td_num := td_num self + 1\<rparr>"

definition with_values :: "NumericEnumTemplateData \<Rightarrow> string list \<Rightarrow> NumericEnumTemplateData" where
  "with_values self names = foldl add_value self names"

definition with_enum_package :: "NumericEnumTemplateData \<Rightarrow> string \<Rightarrow> NumericEnumTemplateData" where
  "with_enum_package self package = self\<lparr>td_package := Some package\<rparr>"

definition with_enum_converter_package :: "NumericEnumTemplateData \<Rightarrow> string \<Rightarrow> NumericEnumTemplateData" where
  "with_enum_converter_package self package = self\<lparr>td_conv_package := Some package\<rparr>"

text \<open>
  \<open>values()\<close>: \<open>self._values[:-1] + [dict(self._values[-1], last=True)]\<close>. The index
  \<open>-1\<close> raises \<open>IndexError\<close> on the empty list.
\<close>

definition values_td :: "NumericEnumTemplateData \<Rightarrow> error + EnumValue list" where
  "values_td self =
     (if td_values self = [] then Inl IndexError
      else Inr (butlast (td_values self) @ [(last (td_values self))\<lparr>val_last := True\<rparr>]))"

text \<open>
  \<open>EnumCodeGenerator._adjust_enums_from_model\<close>, for one enum of the model: the template
  data with the enum's values and the two packages.
\<close>

definition adjust_enum :: "string \<Rightarrow> string \<Rightarrow> Enum \<Rightarrow> NumericEnumTemplateData" where
  "adjust_enum enum_package converter_package enum =
     with_enum_converter_package
       (with_enum_package
          (with_values (NumericEnumTemplateData_init (enum_name enum)) (enum_values enum))
          enum_package)
       converter_package"

section \<open>Schema-level validation (validation.validate_model)\<close>

text \<open>
  The loaded model module, as the validators read it: \<open>model.schema_name()\<close> (the held
  value, \<open>None\<close> until \<open>Schema(...)\<close> is called) and \<open>model.__file__\<close>.
\<close>

record Model =
  schema_name :: "string option"
  model_file :: string

text \<open>\<open>utils.error(message)\<close> prints the message and calls \<open>sys.exit(1)\<close>.\<close>

definition utils_error :: "string \<Rightarrow> error + unit" where
  "utils_error message = Inl (SystemExit message 1)"

definition newline :: string where
  "newline = [CHR 0x0A]"

text \<open>
  The two messages, as the f-strings build them. \<open>textwrap.dedent\<close> is applied to them
  before they are printed; it is a parameter \<open>dedent\<close> of the validators.
\<close>

definition missing_schema_message :: "Model \<Rightarrow> string" where
  "missing_schema_message model =
     ''            Schema name is required in DB model files but could not be found in:'' @ newline @
     ''                '' @ model_file model @ newline @
     ''            Specify a schema with:'' @ newline @
     ''                Schema('' @ [CHR 0x22] @ ''name'' @ [CHR 0x22] @ '')''"

definition validate_schema_exists :: "(string \<Rightarrow> string) \<Rightarrow> Model \<Rightarrow> error + unit" where
  "validate_schema_exists dedent model =
     (case schema_name model of
        None \<Rightarrow> utils_error (dedent (missing_schema_message model))
      | Some name \<Rightarrow> Inr ())"

text \<open>The raw string \<open>invalid_chars\<close>: \<open>- ^ < > / ' " { } [ \ ] ~ `\<close>.\<close>

definition invalid_chars :: string where
  "invalid_chars =
     [CHR ''-'', CHR ''^'', CHR ''<'', CHR ''>'', CHR ''/'', CHR 0x27, CHR 0x22, CHR ''{'', CHR ''}'',
      CHR ''['', CHR 0x5C, CHR '']'', CHR ''~'', CHR 0x60]"

text \<open>
  The members of the bracket expression of the pattern \<open>^[^-^<>/'"{}[\]~`]+$\<close>: inside the
  brackets the backslash escapes the \<open>]\<close> that follows it and is not itself a member.
\<close>

fun bracket_members :: "string \<Rightarrow> string" where
  "bracket_members [] = []"
| "bracket_members [c] = [c]"
| "bracket_members (c # d # cs) =
     (if c = CHR 0x5C then d # bracket_members cs else c # bracket_members (d # cs))"

text \<open>
  \<open>valid_name.match(name)\<close>: one or more characters, none of them a member of the negated
  bracket expression, up to the end of the string. (A negated bracket expression also
  matches a newline, so the \<open>$\<close> before a final newline adds no match.)
\<close>

definition valid_name_match :: "string \<Rightarrow> bool" where
  "valid_name_match name \<longleftrightarrow>
     name \<noteq> [] \<and> list_all (\<lambda>c. c \<notin> set (bracket_members invalid_chars)) name"

definition invalid_schema_message :: "string \<Rightarrow> Model \<Rightarrow> string" where
  "invalid_schema_message name model =
     (let chars = ''.'' @ invalid_chars in
      ''            Invalid schema name:'' @ newline @
      ''                '' @ name @ newline @
      ''            was found in file:'' @ newline @
      ''                '' @ model_file model @ newline @
      ''            A valid schema name cannot contain any of: '' @ chars)"

text \<open>On \<open>None\<close>, \<open>valid_name.match(name)\<close> raises \<open>TypeError\<close>.\<close>

definition validate_schema_name :: "(string \<Rightarrow> string) \<Rightarrow> Model \<Rightarrow> error + unit" where
  "validate_schema_name dedent model =
     (case schema_name model of
        None \<Rightarrow> Inl TypeError
      | Some name \<Rightarrow>
          if \<not> valid_name_match name \<or> CHR ''.'' \<in> set name
          then utils_error (dedent (invalid_schema_message name model))
          else Inr ())"

fun run_validators :: "(Model \<Rightarrow> error + unit) list \<Rightarrow> Model \<Rightarrow> error + unit" where
  "run_validators [] model = Inr ()"
| "run_validators (validator # rest) model =
     (case validator model of Inl e \<Rightarrow> Inl e | Inr _ \<Rightarrow> run_validators rest model)"

definition validate_model :: "(string \<Rightarrow> string) \<Rightarrow> Model \<Rightarrow> error + unit" where
  "validate_model dedent model =
     run_validators [validate_schema_exists dedent, validate_schema_name dedent] model"

text \<open>
  The characters a schema name may not contain: the members of the bracket expression and
  the dot.
\<close>

definition forbidden_chars :: "char set" where
  "forbidden_chars =
     {CHR ''.'', CHR ''-'', CHR ''^'', CHR ''<'', CHR ''>'', CHR ''/'', CHR 0x27, CHR 0x22, CHR ''{'',
      CHR ''}'', CHR ''['', CHR '']'', CHR ''~'', CHR 0x60}"

section \<open>Text as code points; the import gate (validation.validate_model_file)\<close>

text \<open>
  The contents of a model file and the DDL text are Python \<open>str\<close> values that the code
  splits into lines and strips; they are lists of Unicode code points. \<open>u\<close> gives the code
  points of an ASCII literal.
\<close>

type_synonym unicode = "nat list"

definition u :: "string \<Rightarrow> unicode" where
  "u s = map of_char s"

text \<open>
  The line boundaries of \<open>str.splitlines\<close>: \<open>\n\<close>, \<open>\v\<close>, \<open>\f\<close>, \<open>\r\<close> (and \<open>\r\n\<close> as
  one), \<open>\x1c\<close>, \<open>\x1d\<close>, \<open>\x1e\<close>, \<open>\x85\<close>, U+2028 and U+2029.
\<close>

definition is_linebreak :: "nat \<Rightarrow> bool" where
  "is_linebreak c \<longleftrightarrow> c \<in> {10, 11, 12, 13, 28, 29, 30, 133, 8232, 8233}"

text \<open>
  \<open>s.splitlines()\<close> (\<open>keepends=False\<close>): the first line of \<open>c # cs\<close> is empty when \<open>c\<close>
  is a boundary, and otherwise \<open>c\<close> followed by the first line of \<open>cs\<close>. A boundary at the
  end of the text opens no further line.
\<close>

fun splitlines :: "unicode \<Rightarrow> unicode list" where
  "splitlines [] = []"
| "splitlines (c # cs) =
     (if is_linebreak c
      then [] # splitlines (if c = 13 \<and> take 1 cs = [10] then drop 1 cs else cs)
      else (case splitlines cs of
              [] \<Rightarrow> [[c]]
            | l # ls \<Rightarrow> (c # l) # ls))"

text \<open>\<open>_get_line(model_content, lineno)\<close>.\<close>

definition get_line :: "unicode \<Rightarrow> nat \<Rightarrow> error + unicode" where
  "get_line model_content lineno =
     (if \<not> lineno > 0 then Inl AssertionError
      else let lines = splitlines model_content
           in if lineno - 1 < length lines then Inr (lines ! (lineno - 1)) else Inl IndexError)"

text \<open>
  The tree \<open>ast.parse\<close> returns: a node has a class, the \<open>lineno\<close> the parser gave it and
  its child nodes. Only the classes \<open>Import\<close> and \<open>ImportFrom\<close> are told apart.
\<close>

datatype node_class = Import | ImportFrom | OtherNode

datatype ast = Node node_class nat "ast list"

fun node_cls :: "ast \<Rightarrow> node_class" where
  "node_cls (Node k l ch) = k"

fun lineno :: "ast \<Rightarrow> nat" where
  "lineno (Node k l ch) = l"

fun iter_child_nodes :: "ast \<Rightarrow> ast list" where
  "iter_child_nodes (Node k l ch) = ch"

text \<open>
  \<open>ast.walk\<close>: breadth first, \<open>todo\<close> being the queue; the function returns the nodes in
  the order the generator yields them.
\<close>

function walk_todo :: "ast list \<Rightarrow> ast list" where
  "walk_todo [] = []"
| "walk_todo (node # todo) = node # walk_todo (todo @ iter_child_nodes node)"
  by pat_completeness auto
termination
proof (relation "measure (\<lambda>todo. sum_list (map size todo))")
  show "wf (measure (\<lambda>todo. sum_list (map size todo)))"
    by simp
next
  fix node :: ast and todo :: "ast list"
  have "sum_list (map size (iter_child_nodes node)) < size node"
  proof (cases node)
    case (Node k l ch)
    have "sum_list (map size ch) \<le> size_list size ch"
      by (induction ch) simp_all
    with Node show ?thesis by simp
  qed
  then show "(todo @ iter_child_nodes node, node # todo) \<in> measure (\<lambda>todo. sum_list (map size todo))"
    by simp
qed

definition walk :: "ast \<Rightarrow> ast list" where
  "walk tree = walk_todo [tree]"

definition import_message :: "nat \<Rightarrow> unicode \<Rightarrow> unicode" where
  "import_message n line =
     u ''Invalid model: import statement found on line '' @ u (str_nat n) @ u '':'' @ [10] @ line"

text \<open>The loop over \<open>ast.walk(tree)\<close>; the first import node found raises.\<close>

fun check_nodes :: "unicode \<Rightarrow> ast list \<Rightarrow> error + unit" where
  "check_nodes code [] = Inr ()"
| "check_nodes code (node # rest) =
     (if node_cls node = Import \<or> node_cls node = ImportFrom
      then (case get_line code (lineno node) of
              Inl e \<Rightarrow> Inl e
            | Inr line \<Rightarrow> Inl (ModelFileException (import_message (lineno node) line)))
      else check_nodes code rest)"

text \<open>
  \<open>validate_model_file(model_file, allow_imports)\<close>. \<open>code\<close> is what \<open>fin.read()\<close>
  returns; \<open>ast.parse\<close> is the parameter \<open>parse\<close>, which raises on text that is not
  Python.
\<close>

definition validate_model_file ::
  "(unicode \<Rightarrow> error + ast) \<Rightarrow> unicode \<Rightarrow> bool \<Rightarrow> error + unit" where
  "validate_model_file parse code allow_imports =
     (if \<not> allow_imports
      then (case parse code of
              Inl e \<Rightarrow> Inl e
            | Inr tree \<Rightarrow> check_nodes code (walk tree))
      else Inr ())"

text \<open>
  \<open>main.load_dbmodel\<close>: the file is validated, then executed (\<open>load_module\<close>, the
  parameter \<open>exec_module\<close>); the validation's exception becomes \<open>utils.error\<close>, any other
  exception is raised again.
\<close>

definition load_dbmodel ::
  "(unicode \<Rightarrow> error + ast) \<Rightarrow> (unicode \<Rightarrow> error + 'm) \<Rightarrow> unicode \<Rightarrow> bool \<Rightarrow> error + 'm" where
  "load_dbmodel parse exec_module code allow_imports =
     (case validate_model_file parse code allow_imports of
        Inl (ModelFileException dbmex) \<Rightarrow> Inl (SystemExitText dbmex 1)
      | Inl e \<Rightarrow> Inl e
      | Inr _ \<Rightarrow> exec_module code)"

section \<open>Enum lookup tables (commands.enumtables)\<close>

text \<open>
  The character classes of the two patterns of \<open>_camel_to_snake\<close>, \<open>[A-Z]\<close>, \<open>[a-z]\<close> and
  \<open>[0-9]\<close>, and \<open>str.lower\<close> on the letters \<open>A-Z\<close>. Enum names are taken to be
  ASCII; a character outside \<open>A-Z\<close> is left as it is.
\<close>

definition is_upper :: "char \<Rightarrow> bool" where
  "is_upper c \<longleftrightarrow> CHR ''A'' \<le> c \<and> c \<le> CHR ''Z''"

definition is_lower :: "char \<Rightarrow> bool" where
  "is_lower c \<longleftrightarrow> CHR ''a'' \<le> c \<and> c \<le> CHR ''z''"

definition is_digit :: "char \<Rightarrow> bool" where
  "is_digit c \<longleftrightarrow> CHR ''0'' \<le> c \<and> c \<le> CHR ''9''"

definition lower_char :: "char \<Rightarrow> char" where
  "lower_char c = (if is_upper c then char_of (of_char c + (32::nat)) else c)"

definition lower :: "string \<Rightarrow> string" where
  "lower s = map lower_char s"

text \<open>
  \<open>re.sub("(.)([A-Z][a-z]+)", r"\1_\2", name)\<close>: scanning from the left, a character
  other than a newline that is followed by an upper-case letter and at least one lower-case
  letter gets an underscore behind it; the match takes all the lower-case letters that
  follow, and the scan goes on behind it.
\<close>

function sub_word :: "string \<Rightarrow> string" where
  "sub_word [] = []"
| "sub_word [c] = [c]"
| "sub_word [c, d] = [c, d]"
| "sub_word (c # d # e # cs) =
     (if c \<noteq> CHR 0x0A \<and> is_upper d \<and> is_lower e
      then c # CHR ''_'' # d # e # takeWhile is_lower cs @ sub_word (dropWhile is_lower cs)
      else c # sub_word (d # e # cs))"
  by pat_completeness auto
termination
  by (relation "measure length") (auto simp: less_Suc_eq_le intro: le_trans [OF length_dropWhile_le])

text \<open>
  \<open>re.sub("([a-z0-9])([A-Z])", r"\1_\2", s1)\<close>: an underscore between a lower-case letter
  or digit and the upper-case letter behind it; the scan goes on behind the two.
\<close>

fun sub_boundary :: "string \<Rightarrow> string" where
  "sub_boundary [] = []"
| "sub_boundary [c] = [c]"
| "sub_boundary (c # d # cs) =
     (if (is_lower c \<or> is_digit c) \<and> is_upper d
      then c # CHR ''_'' # d # sub_boundary cs
      else c # sub_boundary (d # cs))"

definition camel_to_snake :: "string \<Rightarrow> string" where
  "camel_to_snake name = (let s1 = sub_word name in lower (sub_boundary s1))"

definition table_name_from_enum :: "string \<Rightarrow> string" where
  "table_name_from_enum name = ''enum_'' @ camel_to_snake name"

text \<open>
  The database behind the engine: the tables by name, each with its columns as created and
  its rows, \<open>(value, name)\<close> pairs for the lookup tables. Uniqueness and length limits of
  the columns are part of the table definition; enforcing them is the database's part.
\<close>

record db_table =
  tab_columns :: "Column list"
  tab_rows :: "(nat \<times> string) list"

type_synonym database = "string \<Rightarrow> db_table option"

record EnumTable =
  et_enum :: Enum
  et_table :: Table
  et_values :: "(nat \<times> string) list"

definition enum_table_columns :: "Column list" where
  "enum_table_columns =
     [\<lparr>col_name = ''value'', col_type = Integer, col_nullable = False, col_unique = True\<rparr>,
      \<lparr>col_name = ''name'', col_type = String 50, col_nullable = False, col_unique = True\<rparr>]"

text \<open>
  The first loop of \<open>_create_enum_tables\<close>. \<open>metadata\<close> is the fresh SQLAlchemy
  \<open>MetaData\<close>, the list of the tables defined on it so far; SQLAlchemy's \<open>Table(...)\<close>
  raises \<open>InvalidRequestError\<close> when the \<open>MetaData\<close> already has a table of that name
  (the error carries the name).
\<close>

fun create_enum_tables_loop ::
  "Table list \<Rightarrow> EnumTable list \<Rightarrow> Enum list \<Rightarrow> error + (Table list \<times> EnumTable list)" where
  "create_enum_tables_loop metadata enum_tables [] = Inr (metadata, enum_tables)"
| "create_enum_tables_loop metadata enum_tables (enum # rest) =
     (let tname = table_name_from_enum (enum_name enum) in
      if tname \<in> set (map table_name metadata)
      then Inl (InvalidRequestError tname)
      else let table = \<lparr>table_name = tname, table_columns = enum_table_columns,
                          table_constraints = []\<rparr>;
               values = enumerate0 (enum_values enum)
           in create_enum_tables_loop (metadata @ [table])
                (enum_tables @ [\<lparr>et_enum = enum, et_table = table, et_values = values\<rparr>]) rest)"

text \<open>
  \<open>metadata.drop_all(engine)\<close> drops the tables of the \<open>MetaData\<close> that exist, and
  \<open>metadata.create_all(engine)\<close> creates those that do not exist, empty.
\<close>

fun drop_all :: "database \<Rightarrow> Table list \<Rightarrow> database" where
  "drop_all engine [] = engine"
| "drop_all engine (t # ts) = drop_all (engine(table_name t := None)) ts"

fun create_all :: "database \<Rightarrow> Table list \<Rightarrow> database" where
  "create_all engine [] = engine"
| "create_all engine (t # ts) =
     create_all
       (if engine (table_name t) = None
        then engine(table_name t \<mapsto> \<lparr>tab_columns = table_columns t, tab_rows = []\<rparr>)
        else engine) ts"

definition create_enum_tables :: "database \<Rightarrow> Enum list \<Rightarrow> error + (database \<times> EnumTable list)" where
  "create_enum_tables engine enums =
     (case create_enum_tables_loop [] [] enums of
        Inl e \<Rightarrow> Inl e
      | Inr (metadata, enum_tables) \<Rightarrow>
          Inr (create_all (drop_all engine metadata) metadata, enum_tables))"




text \<open>What the first loop of \<open>_create_enum_tables\<close> builds for one enum.\<close>

definition lookup_table :: "Enum \<Rightarrow> Table" where
  "lookup_table e = \<lparr>table_name = table_name_from_enum (enum_name e),
     table_columns = enum_table_columns, table_constraints = []\<rparr>"

definition enum_table_of :: "Enum \<Rightarrow> EnumTable" where
  "enum_table_of e = \<lparr>et_enum = e, et_table = lookup_table e, et_values = enumerate0 (enum_values e)\<rparr>"

section \<open>Type mappings, views and the generator configuration\<close>

datatype TypeFamilies = TF_enum | TF_boolean | TF_binary

text \<open>
  The nested dictionaries \<open>table -> column -> type\<close> are association lists in insertion
  order. \<open>set_item2\<close> is \<open>column_types[table][column] = value\<close> on a
  \<open>defaultdict(dict)\<close>.
\<close>

type_synonym type_mappings = "(string \<times> (string \<times> string) list) list"

definition get_item_default :: "type_mappings \<Rightarrow> string \<Rightarrow> (string \<times> string) list" where
  "get_item_default column_types table =
     (case map_of column_types table of None \<Rightarrow> [] | Some columns \<Rightarrow> columns)"

definition set_item2 :: "type_mappings \<Rightarrow> string \<Rightarrow> string \<Rightarrow> string \<Rightarrow> type_mappings" where
  "set_item2 column_types table column value =
     AList.update table (AList.update column value (get_item_default column_types table)) column_types"

fun is_IntegerEnum :: "coltype \<Rightarrow> bool" where
  "is_IntegerEnum (IntegerEnum field_data) = True"
| "is_IntegerEnum _ = False"

fun field_data_name :: "coltype \<Rightarrow> string" where
  "field_data_name (IntegerEnum field_data) = enum_name field_data"
| "field_data_name _ = []"

text \<open>
  The visitor of \<open>get_type_mappings\<close>; \<open>column.table.name\<close> is passed with the column.
  None of the column types is an instance of another one's class among \<open>IntegerEnum\<close>,
  \<open>Boolean\<close> and \<open>BINARY\<close>.
\<close>

definition visitor :: "TypeFamilies list \<Rightarrow> type_mappings \<Rightarrow> string \<Rightarrow> Column \<Rightarrow> type_mappings" where
  "visitor filter_types column_types tname column =
     (if TF_enum \<in> set filter_types \<and> is_IntegerEnum (col_type column)
      then set_item2 column_types tname (col_name column) (field_data_name (col_type column))
      else if TF_boolean \<in> set filter_types \<and> col_type column = Boolean
      then set_item2 column_types tname (col_name column) ''BOOLEAN''
      else if TF_binary \<in> set filter_types \<and> col_type column = BINARY
      then set_item2 column_types tname (col_name column) ''BINARY''
      else column_types)"

text \<open>
  \<open>MetaData.visit_columns\<close> with a visitor that reads the columns and updates a value of
  its own: every column of every table, the tables in the order of \<open>sorted_tables\<close>.
\<close>

definition visit_columns ::
  "Table list \<Rightarrow> ('acc \<Rightarrow> string \<Rightarrow> Column \<Rightarrow> 'acc) \<Rightarrow> 'acc \<Rightarrow> 'acc" where
  "visit_columns sorted_tables visit acc =
     foldl (\<lambda>acc table. foldl (\<lambda>acc column. visit acc (table_name table) column) acc
                            (table_columns table))
           acc sorted_tables"

text \<open>\<open>sort_by_keys(d)\<close>: the items of \<open>d\<close> in the order of the sorted keys.\<close>

definition sort_by_keys :: "(string \<times> 'v) list \<Rightarrow> (string \<times> 'v) list" where
  "sort_by_keys d = map (\<lambda>k. (k, the (map_of d k))) (sort (map fst d))"

definition get_type_mappings :: "Table list \<Rightarrow> TypeFamilies list option \<Rightarrow> type_mappings" where
  "get_type_mappings sorted_tables filter_types =
     (let filter_types = (case filter_types of None \<Rightarrow> [TF_enum, TF_boolean] | Some f \<Rightarrow> f);
          column_types = visit_columns sorted_tables (visitor filter_types) [];
          ordered_types = sort_by_keys column_types
      in map (\<lambda>(name, _). (name, sort_by_keys (get_item_default column_types name))) ordered_types)"

subsection \<open>Views (commands.enumtables)\<close>

record View =
  view_name :: string
  view_table :: string
  view_selects :: "string list"
  view_joins :: "string list"

definition make_view :: "string \<Rightarrow> View" where
  "make_view from_table =
     \<lparr>view_name = ''enumed_'' @ from_table @ ''_view'', view_table = from_table,
      view_selects = [], view_joins = []\<rparr>"

text \<open>An f-string renders \<open>None\<close> as \<open>None\<close>.\<close>

definition str_option :: "string option \<Rightarrow> string" where
  "str_option x = (case x of None \<Rightarrow> ''None'' | Some s \<Rightarrow> s)"

text \<open>
  \<open>enum_table_lookup\<close>, a dictionary comprehension: of two entries with one key the later
  one stays.
\<close>

definition enum_table_lookup :: "EnumTable list \<Rightarrow> string \<Rightarrow> string option" where
  "enum_table_lookup enum_tables =
     map_of (rev (map (\<lambda>et. (enum_name (et_enum et), table_name (et_table et))) enum_tables))"

definition add_field :: "(string \<Rightarrow> string option) \<Rightarrow> View \<Rightarrow> string \<times> string \<Rightarrow> View" where
  "add_field lookup view field =
     (case field of (column, ename) \<Rightarrow>
        let enum_table = str_option (lookup ename) in
        view\<lparr>view_selects := view_selects view @ [enum_table @ ''.name as '' @ column @ ''_name''],
             view_joins := view_joins view @
               [''LEFT JOIN '' @ enum_table @ '' ON t.'' @ column @ '' = '' @ enum_table @ ''.value'']\<rparr>)"

definition view_query :: "View \<Rightarrow> string" where
  "view_query view =
     ''CREATE OR REPLACE VIEW '' @ view_name view @ '' AS SELECT t.*, '' @
     join '', '' (view_selects view) @ '' FROM '' @ view_table view @ '' t '' @
     join '' '' (view_joins view)"

text \<open>
  \<open>_generate_views\<close>: the queries passed to \<open>conn.execute\<close>, one per item of
  \<open>enum_usage\<close>, in order.
\<close>

definition generate_views :: "EnumTable list \<Rightarrow> type_mappings \<Rightarrow> string list" where
  "generate_views enum_tables enum_usage =
     map (\<lambda>(table, fields).
            view_query (foldl (add_field (enum_table_lookup enum_tables)) (make_view table) fields))
         enum_usage"

subsection \<open>The generator configuration (codegen.EnumCodeGenerator)\<close>

definition enum_fqn :: "NumericEnumTemplateData \<Rightarrow> string" where
  "enum_fqn self = str_option (td_package self) @ ''.'' @ td_name self"

record EnumCodeGenerator =
  cg_enum_package :: string
  cg_enum_converter_package :: string
  cg_enums :: "NumericEnumTemplateData list"

definition adjust_enums_from_model :: "string \<Rightarrow> string \<Rightarrow> EnumCollection \<Rightarrow> NumericEnumTemplateData list" where
  "adjust_enums_from_model enum_package converter_package enums =
     map (adjust_enum enum_package converter_package) (map snd (ec_items enums))"

definition EnumCodeGenerator_init :: "EnumCollection \<Rightarrow> string \<Rightarrow> string \<Rightarrow> EnumCodeGenerator" where
  "EnumCodeGenerator_init enums enum_package converter_package =
     \<lparr>cg_enum_package = enum_package, cg_enum_converter_package = converter_package,
      cg_enums = adjust_enums_from_model enum_package converter_package enums\<rparr>"

text \<open>\<open>enums_by_name\<close>, a dictionary comprehension over \<open>self.enums\<close>.\<close>

definition enums_by_name :: "EnumCodeGenerator \<Rightarrow> string \<Rightarrow> NumericEnumTemplateData option" where
  "enums_by_name self = map_of (rev (map (\<lambda>enum. (td_name enum, enum)) (cg_enums self)))"

record ForcedType =
  ft_expression :: string
  ft_name :: string

definition jooq_forced_type_data :: "string \<Rightarrow> string \<Rightarrow> string \<Rightarrow> ForcedType" where
  "jooq_forced_type_data table field type_name =
     \<lparr>ft_expression = table @ [CHR 0x5C] @ ''.'' @ field, ft_name = type_name\<rparr>"

text \<open>The \<open>field_data\<close> list that \<open>generate_jooq_config\<close> hands to the template.\<close>

definition type_fqn :: "EnumCodeGenerator \<Rightarrow> string \<Rightarrow> string" where
  "type_fqn self type_name =
     (case enums_by_name self type_name of None \<Rightarrow> type_name | Some enum \<Rightarrow> enum_fqn enum)"

definition jooq_field_data :: "EnumCodeGenerator \<Rightarrow> type_mappings \<Rightarrow> ForcedType list" where
  "jooq_field_data self type_mappings =
     concat (map (\<lambda>(table, columns).
                    map (\<lambda>(column, type_name).
                           jooq_forced_type_data table column (type_fqn self type_name))
                        columns)
                 type_mappings)"

subsection \<open>What the visitor records for a column\<close>

text \<open>
  The decision of the visitor as a function of the column: the type name it stores, if
  any; the columns of a table and the tables for which it stores one, in the sorted order
  of the result; and the update of one table's dictionary by one column.
\<close>

definition mapped_type :: "TypeFamilies list \<Rightarrow> Column \<Rightarrow> string option" where
  "mapped_type filter_types column =
     (if TF_enum \<in> set filter_types \<and> is_IntegerEnum (col_type column)
      then Some (field_data_name (col_type column))
      else if TF_boolean \<in> set filter_types \<and> col_type column = Boolean then Some ''BOOLEAN''
      else if TF_binary \<in> set filter_types \<and> col_type column = BINARY then Some ''BINARY''
      else None)"

definition mapped_columns :: "TypeFamilies list \<Rightarrow> Table \<Rightarrow> Column list" where
  "mapped_columns filter_types table =
     sort_key col_name (filter (\<lambda>c. mapped_type filter_types c \<noteq> None) (table_columns table))"

definition mapped_tables :: "TypeFamilies list \<Rightarrow> Table list \<Rightarrow> Table list" where
  "mapped_tables filter_types tables =
     sort_key table_name (filter (\<lambda>t. \<exists>c \<in> set (table_columns t). mapped_type filter_types c \<noteq> None) tables)"

definition upd_field :: "TypeFamilies list \<Rightarrow> (string \<times> string) list \<Rightarrow> Column \<Rightarrow> (string \<times> string) list" where
  "upd_field f m c = (case mapped_type f c of None \<Rightarrow> m | Some v \<Rightarrow> AList.update (col_name c) v m)"

definition table_fields :: "TypeFamilies list \<Rightarrow> Table \<Rightarrow> (string \<times> string) list" where
  "table_fields f t = map (\<lambda>c. (col_name c, the (mapped_type f c)))
                        (filter (\<lambda>c. mapped_type f c \<noteq> None) (table_columns t))"

section \<open>DDL compilation (MetaData.ddl)\<close>

subsection \<open>Stripping whitespace\<close>

text \<open>The characters \<open>str.strip\<close> and \<open>str.rstrip\<close> remove: those with \<open>str.isspace\<close>.\<close>

definition is_space :: "nat \<Rightarrow> bool" where
  "is_space c \<longleftrightarrow>
     (9 \<le> c \<and> c \<le> 13) \<or> (28 \<le> c \<and> c \<le> 32) \<or> c = 133 \<or> c = 160 \<or> c = 5760 \<or>
     (8192 \<le> c \<and> c \<le> 8202) \<or> c = 8232 \<or> c = 8233 \<or> c = 8239 \<or> c = 8287 \<or> c = 12288"

definition rstrip :: "unicode \<Rightarrow> unicode" where
  "rstrip s = rev (dropWhile is_space (rev s))"

definition strip :: "unicode \<Rightarrow> unicode" where
  "strip s = rstrip (dropWhile is_space s)"

definition multiline_rstrip :: "unicode \<Rightarrow> unicode" where
  "multiline_rstrip s = join [10] (map rstrip (splitlines s))"

subsection \<open>The objects of the model\<close>

text \<open>
  \<open>_adapt_model_to_engine\<close> assigns to \<open>column.type\<close> and attaches listeners to a
  \<open>MetaData\<close>, so columns and metadata objects live in a store and are referred to by
  address; a table holds the addresses of its columns. The tables of a metadata object are
  listed in the order of its \<open>sorted_tables\<close>. The listeners are the DDL texts attached
  for the \<open>after_create\<close> event.
\<close>

type_synonym addr = nat

record TableObj =
  to_name :: string
  to_columns :: "addr list"
  to_constraints :: "CheckConstraint list"

text \<open>A stored procedure with the value of its \<open>sql\<close> property.\<close>

record StoredProcedure =
  sp_name :: string
  sp_sql :: unicode

definition creation_statement :: "StoredProcedure \<Rightarrow> unicode" where
  "creation_statement self =
     join [10] [u ''DELIMITER //'', sp_sql self @ [10] @ u ''//'', u ''DELIMITER ;'']"

record MetaDataObj =
  md_tables :: "TableObj list"
  md_enums :: EnumCollection
  md_table_names :: TableCollection
  md_stored_procedures :: "StoredProcedure list"
  md_after_create :: "unicode list"

record store =
  columns_heap :: "Column list"
  metadata_heap :: "MetaDataObj list"

text \<open>A table as its columns stand in the store.\<close>

definition table_view :: "store \<Rightarrow> TableObj \<Rightarrow> Table" where
  "table_view s t =
     \<lparr>table_name = to_name t, table_columns = map (\<lambda>a. columns_heap s ! a) (to_columns t),
      table_constraints = to_constraints t\<rparr>"

text \<open>
  References do not dangle: the metadata object exists and so do the columns of its tables.
\<close>

definition wf_store :: "store \<Rightarrow> addr \<Rightarrow> bool" where
  "wf_store s model \<longleftrightarrow>
     model < length (metadata_heap s) \<and>
     (\<forall>t \<in> set (md_tables (metadata_heap s ! model)).
        \<forall>a \<in> set (to_columns t). a < length (columns_heap s))"

subsection \<open>The adaptation to the engine\<close>

definition visitor_mysql_datetime :: "string \<Rightarrow> Column \<Rightarrow> Column" where
  "visitor_mysql_datetime column_name column =
     (if col_type column = DateTime then column\<lparr>col_type := MYSQL_DATETIME 3\<rparr> else column)"

text \<open>
  \<open>copy.deepcopy(model)\<close>: new column objects for every table, and a new metadata
  object. \<open>__getstate__\<close> hands the tables, the enums, the table names and the stored
  procedures to the copy; listeners are not part of the state.
\<close>

fun deepcopy_tables :: "Column list \<Rightarrow> TableObj list \<Rightarrow> TableObj list \<times> Column list" where
  "deepcopy_tables heap [] = ([], heap)"
| "deepcopy_tables heap (t # ts) =
     (let n = length heap;
          heap' = heap @ map (\<lambda>a. heap ! a) (to_columns t);
          t' = t\<lparr>to_columns := [n ..< n + length (to_columns t)]\<rparr>
      in case deepcopy_tables heap' ts of (ts', heap'') \<Rightarrow> (t' # ts', heap''))"

definition getstate :: "MetaDataObj \<Rightarrow> TableObj list \<Rightarrow> MetaDataObj" where
  "getstate self tables =
     \<lparr>md_tables = tables, md_enums = md_enums self, md_table_names = md_table_names self,
      md_stored_procedures = md_stored_procedures self, md_after_create = []\<rparr>"

definition deepcopy :: "store \<Rightarrow> addr \<Rightarrow> addr \<times> store" where
  "deepcopy s model =
     (let m = metadata_heap s ! model
      in case deepcopy_tables (columns_heap s) (md_tables m) of
           (tables', columns') \<Rightarrow>
             (length (metadata_heap s),
              s\<lparr>columns_heap := columns', metadata_heap := metadata_heap s @ [getstate m tables']\<rparr>))"

text \<open>
  \<open>MetaData.visit_columns\<close> with visitors that assign to the column: every visitor on
  every column of every table.
\<close>

definition visit_column :: "(string \<Rightarrow> Column \<Rightarrow> Column) list \<Rightarrow> Column \<Rightarrow> Column" where
  "visit_column visitors column = foldl (\<lambda>c visit. visit (col_name c) c) column visitors"

definition visit_columns_store :: "store \<Rightarrow> addr \<Rightarrow> (string \<Rightarrow> Column \<Rightarrow> Column) list \<Rightarrow> store" where
  "visit_columns_store s model visitors =
     s\<lparr>columns_heap :=
         foldl (\<lambda>heap table.
                  foldl (\<lambda>heap a. heap[a := visit_column visitors (heap ! a)]) heap (to_columns table))
               (columns_heap s) (md_tables (metadata_heap s ! model))\<rparr>"

text \<open>\<open>event.listen(model_copy, "after_create", DDL(ddl))\<close>.\<close>

definition listen :: "store \<Rightarrow> addr \<Rightarrow> unicode \<Rightarrow> store" where
  "listen s model ddl_text =
     s\<lparr>metadata_heap :=
         (metadata_heap s)[model :=
            (metadata_heap s ! model)\<lparr>md_after_create :=
               md_after_create (metadata_heap s ! model) @ [ddl_text]\<rparr>]\<rparr>"

definition visitors_per_engine :: "string \<Rightarrow> (string \<Rightarrow> Column \<Rightarrow> Column) list option" where
  "visitors_per_engine engine = (if engine = ''mysql'' then Some [visitor_mysql_datetime] else None)"

definition adapt_model_to_engine :: "store \<Rightarrow> addr \<Rightarrow> string \<Rightarrow> bool \<Rightarrow> addr \<times> store" where
  "adapt_model_to_engine s model engine for_text =
     (case visitors_per_engine engine of
        None \<Rightarrow> (model, s)
      | Some visitors \<Rightarrow>
          if visitors = [] then (model, s)
          else case deepcopy s model of
                 (model_copy, s1) \<Rightarrow>
                   let s2 = foldl (\<lambda>s v. visit_columns_store s model_copy [v]) s1 visitors;
                       s3 = foldl (\<lambda>s proc. listen s model_copy
                                      (if for_text then creation_statement proc else sp_sql proc))
                              s2 (md_stored_procedures (metadata_heap s2 ! model_copy))
                   in (model_copy, s3))"

subsection \<open>Compilation to text\<close>

text \<open>
  What \<open>create_all\<close> passes to the executor: a \<open>CREATE TABLE\<close> per table, then the DDL
  of the \<open>after_create\<close> listeners. \<open>create_engine\<close> is the parameter of that name:
  for an engine name SQLAlchemy knows it gives the function that compiles an element to
  text with the engine's dialect, \<open>str(sql.compile(dialect=engine.dialect))\<close>; for any
  other name it raises.
\<close>

datatype DDLElement = CreateTable Table | DDL unicode

definition ddl ::
  "(string \<Rightarrow> (DDLElement \<Rightarrow> unicode) option) \<Rightarrow> store \<Rightarrow> addr \<Rightarrow> string \<Rightarrow> (error + unicode) \<times> store" where
  "ddl create_engine s self engine_name =
     (case create_engine engine_name of
        None \<Rightarrow> (Inl (NoSuchModuleError engine_name), s)
      | Some compile \<Rightarrow>
          (case adapt_model_to_engine s self engine_name True of
             (model, s') \<Rightarrow>
               let sorted_tables = md_tables (metadata_heap s' ! model);
                   statements = map (\<lambda>t. CreateTable (table_view s' t)) sorted_tables @
                                map DDL (md_after_create (metadata_heap s' ! model));
                   ddl_list = map (\<lambda>sql. strip (compile sql)) statements;
                   code = join (u '';'' @ [10, 10]) ddl_list
               in (Inr (multiline_rstrip code), s')))"

subsection \<open>The text as a function of the model's contents\<close>

text \<open>
  The model as \<open>ddl\<close> reads it, without addresses; the statements compiled for a model
  with these contents; and the resulting text.
\<close>

definition model_tables :: "store \<Rightarrow> addr \<Rightarrow> Table list" where
  "model_tables s model = map (table_view s) (md_tables (metadata_heap s ! model))"

definition adapted_table :: "string \<Rightarrow> Table \<Rightarrow> Table" where
  "adapted_table engine t =
     (if engine = ''mysql''
      then t\<lparr>table_columns := map (\<lambda>c. visitor_mysql_datetime (col_name c) c) (table_columns t)\<rparr>
      else t)"

definition ddl_statements :: "string \<Rightarrow> Table list \<Rightarrow> StoredProcedure list \<Rightarrow> unicode list \<Rightarrow> DDLElement list" where
  "ddl_statements engine tables procs listeners =
     map (\<lambda>t. CreateTable (adapted_table engine t)) tables @
     map DDL (if engine = ''mysql'' then map creation_statement procs else listeners)"

definition ddl_text ::
  "(string \<Rightarrow> (DDLElement \<Rightarrow> unicode) option) \<Rightarrow> string \<Rightarrow> Table list \<Rightarrow> StoredProcedure list \<Rightarrow>
     unicode list \<Rightarrow> error + unicode" where
  "ddl_text create_engine engine tables procs listeners =
     (case create_engine engine of
        None \<Rightarrow> Inl (NoSuchModuleError engine)
      | Some compile \<Rightarrow>
          Inr (multiline_rstrip
                 (join (u '';'' @ [10, 10])
                    (map (\<lambda>sql. strip (compile sql))
                       (ddl_statements engine tables procs listeners)))))"

text \<open>The visitors for \<open>mysql\<close>, applied to one column.\<close>

definition mysql_column :: "Column \<Rightarrow> Column" where
  "mysql_column c = visitor_mysql_datetime (col_name c) c"

section \<open>The example schema of the specification\<close>

text \<open>
  Schema \<open>Shop\<close>: the enum \<open>OrderStatus(Pending, Shipped, Delivered)\<close> and the table
  \<open>orders(id, status: OrderStatus)\<close>, as the builder leaves them.
\<close>

definition no_enums :: EnumCollection where
  "no_enums = \<lparr>ec_attrs = [], ec_items = []\<rparr>"

definition OrderStatus :: Enum where
  "OrderStatus = \<lparr>enum_name = ''OrderStatus'', enum_args = [''Pending'', ''Shipped'', ''Delivered''],
     enum_values = [''Pending'', ''Shipped'', ''Delivered''],
     enum_attrs = [(''Pending'', 0), (''Shipped'', 1), (''Delivered'', 2)]\<rparr>"

definition shop_enums :: EnumCollection where
  "shop_enums = \<lparr>ec_attrs = [(''OrderStatus'', OrderStatus)], ec_items = [(''OrderStatus'', OrderStatus)]\<rparr>"

definition orders_columns :: "Column list" where
  "orders_columns =
     [\<lparr>col_name = ''id'', col_type = Integer, col_nullable = False, col_unique = False\<rparr>,
      \<lparr>col_name = ''status'', col_type = IntegerEnum OrderStatus, col_nullable = False, col_unique = False\<rparr>]"

definition orders :: Table where
  "orders = \<lparr>table_name = ''orders'', table_columns = orders_columns,
     table_constraints = [\<lparr>ck_text = ''status in (0,1,2)'', ck_name = ''ck_orders_status''\<rparr>]\<rparr>"

definition Empty_enum :: Enum where
  "Empty_enum = \<lparr>enum_name = ''Empty'', enum_args = [], enum_values = [], enum_attrs = []\<rparr>"

text \<open>
  A model file whose first line holds a form feed (a page break) and whose second line is
  \<open>import os\<close>, with the tree the parser builds for it: the module, the \<open>Import\<close>
  statement on line 2 and its alias.
\<close>

definition formfeed_source :: unicode where
  "formfeed_source = [12, 10] @ u ''import os'' @ [10]"

definition formfeed_tree :: ast where
  "formfeed_tree = Node OtherNode 0 [Node Import 2 [Node OtherNode 0 []]]"

definition formfeed_parse :: "unicode \<Rightarrow> error + ast" where
  "formfeed_parse code = (if code = formfeed_source then Inr formfeed_tree else Inl SyntaxError)"

text \<open>A database without tables, and two enums whose names differ in the first letter.\<close>

definition empty_db :: database where
  "empty_db = Map.empty"




text \<open>A second table of the shop, without enum columns.\<close>

definition customers :: Table where
  "customers = \<lparr>table_name = ''customers'',
     table_columns =
       [\<lparr>col_name = ''id'', col_type = Integer, col_nullable = False, col_unique = False\<rparr>,
        \<lparr>col_name = ''photo'', col_type = BINARY, col_nullable = True, col_unique = False\<rparr>,
        \<lparr>col_name = ''active'', col_type = Boolean, col_nullable = False, col_unique = False\<rparr>],
     table_constraints = []\<rparr>"

text \<open>
  The shop's model in a store: the table \<open>orders\<close> with a timestamp column, and one
  stored procedure. \<open>toy_create_engine\<close> knows the engine \<open>mysql\<close> only; its dialect
  prints a table as one line, with white space around it.
\<close>

definition shop_store :: store where
  "shop_store =
     \<lparr>columns_heap =
        [\<lparr>col_name = ''id'', col_type = Integer, col_nullable = False, col_unique = False\<rparr>,
         \<lparr>col_name = ''status'', col_type = IntegerEnum OrderStatus, col_nullable = False, col_unique = False\<rparr>,
         \<lparr>col_name = ''created'', col_type = DateTime, col_nullable = False, col_unique = False\<rparr>],
      metadata_heap =
        [\<lparr>md_tables = [\<lparr>to_name = ''orders'', to_columns = [0, 1, 2],
                         to_constraints = [\<lparr>ck_text = ''status in (0,1,2)'', ck_name = ''ck_orders_status''\<rparr>]\<rparr>],
          md_enums = shop_enums,
          md_table_names = \<lparr>tc_attrs = []\<rparr>,
          md_stored_procedures = [\<lparr>sp_name = ''touch'', sp_sql = u ''BEGIN END''\<rparr>],
          md_after_create = []\<rparr>]\<rparr>"

fun toy_type :: "coltype \<Rightarrow> string" where
  "toy_type DateTime = ''DATETIME''"
| "toy_type (MYSQL_DATETIME fsp) = ''DATETIME('' @ str_nat fsp @ '')''"
| "toy_type _ = ''INTEGER''"

fun toy_compile :: "DDLElement \<Rightarrow> unicode" where
  "toy_compile (CreateTable t) =
     [10] @ u (''CREATE TABLE '' @ table_name t @ '' ('' @
               join '', '' (map (\<lambda>c. col_name c @ '' '' @ toy_type (col_type c)) (table_columns t)) @
               '')'') @ [32, 10, 10]"
| "toy_compile (DDL statement) = statement"

definition toy_create_engine :: "string \<Rightarrow> (DDLElement \<Rightarrow> unicode) option" where
  "toy_create_engine engine_name = (if engine_name = ''mysql'' then Some toy_compile else None)"

section \<open>Enumerations: numeric codes and the derived check constraint\<close>

lemma Enum_init_loop_Inr:
  "Enum_init_loop self (List.enumerate n xs) = Inr self' \<Longrightarrow>
     enum_values self' = enum_values self @ xs \<and>
     enum_attrs self' = enum_attrs self @ zip xs [n ..< n + length xs] \<and>
     enum_name self' = enum_name self \<and> enum_args self' = enum_args self"
proof (induction xs arbitrary: self n)
  case Nil
  then show ?case by simp
next
  case (Cons x xs)
  from Cons.prems have nh: "\<not> Enum_hasattr self x"
    by (auto split: if_splits)
  let ?s = "self\<lparr>enum_attrs := enum_attrs self @ [(x, n)], enum_values := enum_values self @ [x]\<rparr>"
  from Cons.prems nh have "Enum_init_loop ?s (List.enumerate (Suc n) xs) = Inr self'"
    by simp
  from Cons.IH [OF this]
  have *: "enum_values self' = enum_values ?s @ xs"
    "enum_attrs self' = enum_attrs ?s @ zip xs [Suc n ..< Suc n + length xs]"
    "enum_name self' = enum_name ?s" "enum_args self' = enum_args ?s"
    by simp_all
  have "[n ..< n + length (x # xs)] = n # [Suc n ..< Suc n + length xs]"
    by (subst upt_conv_Cons) simp_all
  with * show ?case by simp
qed

lemma Enum_init_Inr:
  assumes "Enum_init name metadata args = Inr (e, metadata')"
  shows "enum_values e = args \<and> enum_attrs e = zip args [0 ..< length args] \<and> enum_name e = name"
proof -
  from assms obtain self' where
    "Enum_init_loop \<lparr>enum_name = name, enum_args = args, enum_values = [], enum_attrs = []\<rparr>
       (List.enumerate 0 args) = Inr self'" and "e = self'"
    by (auto simp: Enum_init_def enumerate0_def Let_def split: sum.splits)
  with Enum_init_loop_Inr [of _ 0 args self'] show ?thesis by auto
qed

lemma Table_init_loop_constraints:
  "Table_init_loop self columns cs = (self', columns') \<Longrightarrow>
     table_name self' = table_name self \<and> table_columns self' = table_columns self \<and>
     table_constraints self' =
       table_constraints self @ concat (map (\<lambda>c. case col_type c of
           IntegerEnum e \<Rightarrow> [get_constraint e (table_name self) (col_name c)] | _ \<Rightarrow> []) cs)"
proof (induction cs arbitrary: self columns)
  case Nil
  then show ?case by simp
next
  case (Cons c cs)
  from Cons.prems obtain s1 c1 where
    step: "Table_init_loop s1 c1 cs = (self', columns')"
    and s1: "s1 = (case col_type c of
                     IntegerEnum field_data \<Rightarrow>
                       self\<lparr>table_constraints := table_constraints self @
                              [get_constraint field_data (table_name self) (col_name c)]\<rparr>
                   | _ \<Rightarrow> self)"
    by (simp add: Let_def)
  have s1': "table_name s1 = table_name self" "table_columns s1 = table_columns self"
    "table_constraints s1 = table_constraints self @ (case col_type c of
           IntegerEnum e \<Rightarrow> [get_constraint e (table_name self) (col_name c)] | _ \<Rightarrow> [])"
    unfolding s1 by (cases "col_type c"; simp)+
  from Cons.IH [OF step] s1' show ?case by (simp cong: coltype.case_cong)
qed

lemma Enum_init_OrderStatus:
  "Enum_init ''OrderStatus'' no_enums [''Pending'', ''Shipped'', ''Delivered''] = Inr (OrderStatus, shop_enums)"
  by code_simp

lemma Enum_init_Empty:
  "Enum_init ''Empty'' no_enums [] =
     Inr (Empty_enum, \<lparr>ec_attrs = [(''Empty'', Empty_enum)], ec_items = [(''Empty'', Empty_enum)]\<rparr>)"
  by code_simp

text \<open>
  C1. An enumeration built from \<open>N\<close> value names holds them in declaration order with the
  codes \<open>0..N-1\<close>. A table built from columns appends, behind the constraints it was given
  and in column order, one check constraint per enum-typed column; for a column typed with
  the enumeration, the constraint's text is \<open><column> in (0,1,...,N-1)\<close> and its name is
  \<open>ck_<table>_<column>\<close>.
\<close>

theorem enum_codes_and_check_constraint:
  assumes "Enum_init name metadata args = Inr (e, metadata')"
      and "Table_init tname table_names cols cons = Inr (t, table_names')"
  shows "enum_values e = args \<and> enum_attrs e = zip args [0 ..< length args] \<and>
     table_constraints t = cons @ concat (map (\<lambda>c. case col_type c of
         IntegerEnum e' \<Rightarrow>
           [\<lparr>ck_text = col_name c @ '' in ('' @
                         join '','' (map str_nat [0 ..< length (enum_values e')]) @ '')'',
             ck_name = ''ck_'' @ tname @ ''_'' @ col_name c\<rparr>]
       | _ \<Rightarrow> []) cols) \<and>
     (\<forall>c \<in> set cols. col_type c = IntegerEnum e \<longrightarrow>
         \<lparr>ck_text = col_name c @ '' in ('' @ join '','' (map str_nat [0 ..< length args]) @ '')'',
          ck_name = ''ck_'' @ tname @ ''_'' @ col_name c\<rparr> \<in> set (table_constraints t))"
proof -
  from Enum_init_Inr [OF assms(1)]
  have e: "enum_values e = args" "enum_attrs e = zip args [0 ..< length args]" by simp_all
  from assms(2) obtain columns' where
    loop: "Table_init_loop \<lparr>table_name = tname, table_columns = cols, table_constraints = cons\<rparr>
             [(''_table_name'', tname)] cols = (t, columns')"
    by (auto simp: Table_init_def Let_def split: sum.splits prod.splits)
  from Table_init_loop_constraints [OF loop]
  have t: "table_constraints t = cons @ concat (map (\<lambda>c. case col_type c of
         IntegerEnum e' \<Rightarrow>
           [\<lparr>ck_text = col_name c @ '' in ('' @
                         join '','' (map str_nat [0 ..< length (enum_values e')]) @ '')'',
             ck_name = ''ck_'' @ tname @ ''_'' @ col_name c\<rparr>]
       | _ \<Rightarrow> []) cols)"
    by (simp add: get_constraint_def Let_def cong: coltype.case_cong)
  have "\<lparr>ck_text = col_name c @ '' in ('' @ join '','' (map str_nat [0 ..< length args]) @ '')'',
          ck_name = ''ck_'' @ tname @ ''_'' @ col_name c\<rparr> \<in> set (table_constraints t)"
    if "c \<in> set cols" "col_type c = IntegerEnum e" for c
    unfolding t using that e by (auto intro!: bexI [of _ c])
  with e t show ?thesis by blast
qed

theorem enum_codes_and_check_constraint_witness:
  "Enum_init ''OrderStatus'' no_enums [''Pending'', ''Shipped'', ''Delivered''] = Inr (OrderStatus, shop_enums)
   \<and> Table_init ''orders'' \<lparr>tc_attrs = []\<rparr> orders_columns []
     = Inr (orders, \<lparr>tc_attrs = [(''orders'',
          [(''_table_name'', ''orders''), (''id'', ''orders.id''), (''status'', ''orders.status'')])]\<rparr>)
   \<and> enum_attrs OrderStatus = [(''Pending'', 0), (''Shipped'', 1), (''Delivered'', 2)]
   \<and> \<lparr>ck_text = ''status in (0,1,2)'', ck_name = ''ck_orders_status''\<rparr> \<in> set (table_constraints orders)"
proof -
  note h1 = Enum_init_OrderStatus
  have h2: "Table_init ''orders'' \<lparr>tc_attrs = []\<rparr> orders_columns []
     = Inr (orders, \<lparr>tc_attrs = [(''orders'',
          [(''_table_name'', ''orders''), (''id'', ''orders.id''), (''status'', ''orders.status'')])]\<rparr>)"
    by code_simp
  have j: "join '','' (map str_nat [0 ..< length [''Pending'', ''Shipped'', ''Delivered'']]) = ''0,1,2''"
    by code_simp
  have c: "\<lparr>col_name = ''status'', col_type = IntegerEnum OrderStatus, col_nullable = False, col_unique = False\<rparr>
             \<in> set orders_columns"
    by (simp add: orders_columns_def)
  from enum_codes_and_check_constraint [OF h1 h2] c j
  have "\<lparr>ck_text = ''status in (0,1,2)'', ck_name = ''ck_orders_status''\<rparr> \<in> set (table_constraints orders)"
    by fastforce
  moreover have "enum_attrs OrderStatus = [(''Pending'', 0), (''Shipped'', 1), (''Delivered'', 2)]"
    by (simp add: OrderStatus_def)
  ultimately show ?thesis using h1 h2 by blast
qed

section \<open>Duplicate definitions\<close>

lemma Enum_init_duplicate_enum:
  assumes "name \<in> set (map fst (ec_attrs metadata))"
  shows "Enum_init name metadata args = Inl (DatabaseModelException (name @ '' enum already defined''))"
  using assms by (simp add: Enum_init_def add_enum_def EnumCollection_hasattr_def)

lemma Table_init_duplicate_table:
  assumes "name \<in> set (map fst (tc_attrs table_names))"
  shows "Table_init name table_names cols cons =
           Inl (DatabaseModelException (name @ '' table already defined''))"
  using assms by (simp add: Table_init_def add_table_def TableCollection_hasattr_def)

lemma Enum_hasattr_mono:
  "Enum_hasattr self v \<Longrightarrow>
   Enum_hasattr (self\<lparr>enum_attrs := enum_attrs self @ [(x, i)], enum_values := enum_values self @ [x]\<rparr>) v"
  by (auto simp: Enum_hasattr_def)

lemma Enum_init_loop_duplicate_value:
  assumes "(\<exists>v \<in> set (map snd xs). Enum_hasattr self v) \<or> \<not> distinct (map snd xs)"
  shows "\<exists>v \<in> set (map snd xs). Enum_init_loop self xs =
           Inl (DatabaseModelException (v @ '' enum value already defined for enum '' @ enum_name self))"
  using assms
proof (induction xs arbitrary: self)
  case Nil
  then show ?case by simp
next
  case (Cons p xs)
  obtain i x where p: "p = (i, x)" by (cases p)
  show ?case
  proof (cases "Enum_hasattr self x")
    case True
    then show ?thesis by (simp add: p)
  next
    case False
    let ?s = "self\<lparr>enum_attrs := enum_attrs self @ [(x, i)], enum_values := enum_values self @ [x]\<rparr>"
    have x: "Enum_hasattr ?s x" by (simp add: Enum_hasattr_def)
    from Cons.prems False p
    have "(\<exists>v \<in> set (map snd xs). Enum_hasattr ?s v) \<or> \<not> distinct (map snd xs)"
      using x Enum_hasattr_mono [of self _ x i] by auto
    from Cons.IH [OF this] False show ?thesis by (auto simp: p)
  qed
qed

lemma Enum_init_duplicate_value:
  assumes "\<not> distinct args" and "\<not> EnumCollection_hasattr metadata name"
  shows "\<exists>v \<in> set args. Enum_init name metadata args =
           Inl (DatabaseModelException (v @ '' enum value already defined for enum '' @ name))"
proof -
  let ?self = "\<lparr>enum_name = name, enum_args = args, enum_values = [], enum_attrs = []\<rparr>"
  have "map snd (enumerate0 args) = args"
    by (simp add: enumerate0_def)
  with assms(1) Enum_init_loop_duplicate_value [of "enumerate0 args" ?self]
  obtain v where "v \<in> set args" and
    "Enum_init_loop ?self (enumerate0 args) =
       Inl (DatabaseModelException (v @ '' enum value already defined for enum '' @ name))"
    by auto
  with assms(2) show ?thesis
    by (auto simp: Enum_init_def add_enum_def Let_def)
qed

text \<open>
  C5. An enumeration whose value names are pairwise distinct, declared in an empty model,
  is rejected when one of the names is an attribute the object already has: the value name
  \<open>name\<close> collides with the \<open>name\<close> attribute that \<open>__init__\<close> assigns first.
\<close>

theorem Enum_init_rejects_distinct_names:
  "distinct [''Field'', ''id'', ''name''] \<and>
   Enum_init ''Field'' no_enums [''id'', ''name''] =
     Inl (DatabaseModelException ''name enum value already defined for enum Field'')"
  by code_simp

section \<open>Template data: the marker of the last value\<close>

lemma with_values_fold:
  "td_values (foldl add_value s names) =
     td_values s @ map (\<lambda>i. \<lparr>valname = names ! i, valnum = td_num s + i, val_last = False\<rparr>) [0 ..< length names]
   \<and> td_num (foldl add_value s names) = td_num s + length names"
proof (induction names arbitrary: s rule: rev_induct)
  case Nil
  then show ?case by simp
next
  case (snoc x xs)
  then show ?case by (simp add: add_value_def nth_append)
qed

lemma td_values_adjust_enum:
  "td_values (adjust_enum enum_package converter_package e) =
     map (\<lambda>i. \<lparr>valname = enum_values e ! i, valnum = i, val_last = False\<rparr>) [0 ..< length (enum_values e)]"
  using with_values_fold [of "NumericEnumTemplateData_init (enum_name e)" "enum_values e"]
  by (simp add: adjust_enum_def with_values_def with_enum_package_def
        with_enum_converter_package_def NumericEnumTemplateData_init_def)

lemma mark_last:
  assumes "args \<noteq> []"
  defines "vs \<equiv> map (\<lambda>i. \<lparr>valname = args ! i, valnum = i, val_last = False\<rparr>) [0 ..< length args]"
  shows "butlast vs @ [(last vs)\<lparr>val_last := True\<rparr>] =
          map (\<lambda>i. \<lparr>valname = args ! i, valnum = i, val_last = (i = length args - 1)\<rparr>) [0 ..< length args]"
proof (rule nth_equalityI)
  show "length (butlast vs @ [(last vs)\<lparr>val_last := True\<rparr>]) =
        length (map (\<lambda>i. \<lparr>valname = args ! i, valnum = i, val_last = (i = length args - 1)\<rparr>) [0 ..< length args])"
    using assms by (cases args) simp_all
next
  fix i assume "i < length (butlast vs @ [(last vs)\<lparr>val_last := True\<rparr>])"
  with assms have i: "i < length args" by (cases args) simp_all
  show "(butlast vs @ [(last vs)\<lparr>val_last := True\<rparr>]) ! i =
        map (\<lambda>i. \<lparr>valname = args ! i, valnum = i, val_last = (i = length args - 1)\<rparr>) [0 ..< length args] ! i"
  proof (cases "i = length args - 1")
    case True
    with i assms show ?thesis
      by (simp add: nth_append last_map last_conv_nth)
  next
    case False
    with i assms show ?thesis
      by (simp add: nth_append nth_butlast)
  qed
qed

text \<open>
  C10. For an enumeration the builder produced from at least one value name, \<open>values()\<close>
  returns the declared names in order, each with its number, and exactly the final entry
  carries the \<open>last\<close> marker. The builder accepts a declaration with no value names (when
  the enum name is free), and for that enumeration \<open>values()\<close> raises \<open>IndexError\<close>.
\<close>

theorem values_last_marker:
  "(Enum_init name metadata args = Inr (e, metadata') \<and> args \<noteq> [] \<longrightarrow>
      values_td (adjust_enum enum_package converter_package e) =
        Inr (map (\<lambda>i. \<lparr>valname = args ! i, valnum = i, val_last = (i = length args - 1)\<rparr>)
               [0 ..< length args]))
   \<and> (\<not> EnumCollection_hasattr metadata name \<longrightarrow>
        (\<exists>e0 m0. Enum_init name metadata [] = Inr (e0, m0) \<and>
           values_td (adjust_enum enum_package converter_package e0) = Inl IndexError))"
proof (intro conjI impI)
  assume a: "Enum_init name metadata args = Inr (e, metadata') \<and> args \<noteq> []"
  with Enum_init_Inr [of name metadata args e metadata'] have ev: "enum_values e = args" by simp
  from a mark_last [of args] show
    "values_td (adjust_enum enum_package converter_package e) =
        Inr (map (\<lambda>i. \<lparr>valname = args ! i, valnum = i, val_last = (i = length args - 1)\<rparr>)
               [0 ..< length args])"
    by (simp add: values_td_def td_values_adjust_enum ev)
next
  assume "\<not> EnumCollection_hasattr metadata name"
  then obtain e0 m0 where i: "Enum_init name metadata [] = Inr (e0, m0)"
    by (simp add: Enum_init_def add_enum_def enumerate0_def Let_def)
  with Enum_init_Inr [of name metadata "[]" e0 m0] have "enum_values e0 = []" by simp
  then have "values_td (adjust_enum enum_package converter_package e0) = Inl IndexError"
    by (simp add: values_td_def td_values_adjust_enum)
  with i show "\<exists>e0 m0. Enum_init name metadata [] = Inr (e0, m0) \<and>
           values_td (adjust_enum enum_package converter_package e0) = Inl IndexError"
    by blast
qed

theorem values_last_marker_witness:
  "Enum_init ''OrderStatus'' no_enums [''Pending'', ''Shipped'', ''Delivered''] = Inr (OrderStatus, shop_enums)
   \<and> values_td (adjust_enum ''com.shop.enums'' ''com.shop.enums.converters'' OrderStatus) =
     Inr [\<lparr>valname = ''Pending'', valnum = 0, val_last = False\<rparr>,
          \<lparr>valname = ''Shipped'', valnum = 1, val_last = False\<rparr>,
          \<lparr>valname = ''Delivered'', valnum = 2, val_last = True\<rparr>]
   \<and> \<not> EnumCollection_hasattr no_enums ''Empty''
   \<and> (\<exists>e0 m0. Enum_init ''Empty'' no_enums [] = Inr (e0, m0) \<and>
        values_td (adjust_enum ''com.shop.enums'' ''com.shop.enums.converters'' e0) = Inl IndexError)"
proof -
  note h1 = Enum_init_OrderStatus
  have h2: "\<not> EnumCollection_hasattr no_enums ''Empty''"
    by code_simp
  have u: "[0 ..< length [''Pending'', ''Shipped'', ''Delivered'']] = [0, 1, 2]"
    by code_simp
  note t = values_last_marker [of "''OrderStatus''" no_enums "[''Pending'', ''Shipped'', ''Delivered'']"
      OrderStatus shop_enums "''com.shop.enums''" "''com.shop.enums.converters''"]
  from t h1
  have "values_td (adjust_enum ''com.shop.enums'' ''com.shop.enums.converters'' OrderStatus) =
     Inr [\<lparr>valname = ''Pending'', valnum = 0, val_last = False\<rparr>,
          \<lparr>valname = ''Shipped'', valnum = 1, val_last = False\<rparr>,
          \<lparr>valname = ''Delivered'', valnum = 2, val_last = True\<rparr>]"
    unfolding u by simp
  moreover from values_last_marker [of "''Empty''" no_enums _ _ _ "''com.shop.enums''" "''com.shop.enums.converters''"] h2
  have "\<exists>e0 m0. Enum_init ''Empty'' no_enums [] = Inr (e0, m0) \<and>
        values_td (adjust_enum ''com.shop.enums'' ''com.shop.enums.converters'' e0) = Inl IndexError"
    by blast
  ultimately show ?thesis using h1 h2 by blast
qed

section \<open>Schema-level validation\<close>

lemma bracket_members_invalid_chars:
  "insert CHR ''.'' (set (bracket_members invalid_chars)) = forbidden_chars"
  by (auto simp: invalid_chars_def forbidden_chars_def)

lemma schema_name_accepted_iff:
  "\<not> valid_name_match name \<or> CHR ''.'' \<in> set name \<longleftrightarrow> name = [] \<or> set name \<inter> forbidden_chars \<noteq> {}"
  unfolding valid_name_match_def list_all_iff bracket_members_invalid_chars [symmetric]
  by auto

text \<open>
  C6, as the claim states its last part, fails for the empty name: it contains none of the
  forbidden characters and is rejected.
\<close>

theorem validate_model_empty_name_counterexample:
  "set '''' \<inter> forbidden_chars = {} \<and>
   validate_model id \<lparr>schema_name = Some '''', model_file = ''model.py''\<rparr> \<noteq> Inr ()"
  by (simp add: validate_model_def validate_schema_exists_def validate_schema_name_def
        valid_name_match_def utils_error_def)

text \<open>
  C6, amended. Validation exits with the missing-schema message when no schema name was
  set; exits with the invalid-name message when the set name contains a forbidden character
  (one of \<open>. - ^ < > / ' " { } [ ] ~ `\<close>); and passes for a non-empty name that contains
  none of them.
\<close>

theorem validate_model_cases:
  "(schema_name model = None \<longrightarrow>
      validate_model dedent model = Inl (SystemExit (dedent (missing_schema_message model)) 1))
   \<and> (schema_name model = Some name \<and> set name \<inter> forbidden_chars \<noteq> {} \<longrightarrow>
      validate_model dedent model = Inl (SystemExit (dedent (invalid_schema_message name model)) 1))
   \<and> (schema_name model = Some name \<and> name \<noteq> [] \<and> set name \<inter> forbidden_chars = {} \<longrightarrow>
      validate_model dedent model = Inr ())"
  using schema_name_accepted_iff [of name]
  by (auto simp: validate_model_def validate_schema_exists_def validate_schema_name_def
        utils_error_def)

theorem validate_model_cases_witness:
  "validate_model id \<lparr>schema_name = None, model_file = ''model.py''\<rparr> =
     Inl (SystemExit (missing_schema_message \<lparr>schema_name = None, model_file = ''model.py''\<rparr>) 1)
   \<and> set ''my-shop'' \<inter> forbidden_chars \<noteq> {}
   \<and> validate_model id \<lparr>schema_name = Some ''my-shop'', model_file = ''model.py''\<rparr> =
     Inl (SystemExit (invalid_schema_message ''my-shop''
                        \<lparr>schema_name = Some ''my-shop'', model_file = ''model.py''\<rparr>) 1)
   \<and> ''Shop'' \<noteq> [] \<and> set ''Shop'' \<inter> forbidden_chars = {}
   \<and> validate_model id \<lparr>schema_name = Some ''Shop'', model_file = ''model.py''\<rparr> = Inr ()"
proof -
  let ?m1 = "\<lparr>schema_name = None, model_file = ''model.py''\<rparr>"
  let ?m2 = "\<lparr>schema_name = Some ''my-shop'', model_file = ''model.py''\<rparr>"
  let ?m3 = "\<lparr>schema_name = Some ''Shop'', model_file = ''model.py''\<rparr>"
  have a: "set ''my-shop'' \<inter> forbidden_chars \<noteq> {}"
    by (simp add: forbidden_chars_def)
  have b: "''Shop'' \<noteq> []" "set ''Shop'' \<inter> forbidden_chars = {}"
    by (simp_all add: forbidden_chars_def)
  have s: "schema_name ?m1 = None" "schema_name ?m2 = Some ''my-shop''" "schema_name ?m3 = Some ''Shop''"
    by simp_all
  from validate_model_cases [of ?m1 id] s(1)
  have c1: "validate_model id ?m1 = Inl (SystemExit (missing_schema_message ?m1) 1)"
    by (simp del: One_nat_def)
  from validate_model_cases [of ?m2 id "''my-shop''"] s(2) a
  have c2: "validate_model id ?m2 = Inl (SystemExit (invalid_schema_message ''my-shop'' ?m2) 1)"
    unfolding id_apply by blast
  from validate_model_cases [of ?m3 id "''Shop''"] s(3) b
  have c3: "validate_model id ?m3 = Inr ()"
    by blast
  from a b c1 c2 c3 show ?thesis by blast
qed

section \<open>The import gate\<close>

lemma validate_model_file_allowed:
  "validate_model_file parse code True = Inr ()"
  by (simp add: validate_model_file_def)

lemma check_nodes_no_import:
  "\<forall>n \<in> set ns. node_cls n \<noteq> Import \<and> node_cls n \<noteq> ImportFrom \<Longrightarrow> check_nodes code ns = Inr ()"
  by (induction ns) simp_all

lemma check_nodes_import:
  assumes "\<exists>n \<in> set ns. node_cls n = Import \<or> node_cls n = ImportFrom"
  shows "\<exists>n \<in> set ns. (node_cls n = Import \<or> node_cls n = ImportFrom) \<and>
           check_nodes code ns =
             (case get_line code (lineno n) of
                Inl e \<Rightarrow> Inl e
              | Inr line \<Rightarrow> Inl (ModelFileException (import_message (lineno n) line)))"
  using assms
proof (induction ns)
  case Nil
  then show ?case by simp
next
  case (Cons n ns)
  show ?case
  proof (cases "node_cls n = Import \<or> node_cls n = ImportFrom")
    case True
    then show ?thesis by auto
  next
    case False
    with Cons.prems have "\<exists>n \<in> set ns. node_cls n = Import \<or> node_cls n = ImportFrom"
      by auto
    from Cons.IH [OF this] False show ?thesis by auto
  qed
qed

lemma validate_model_file_rejects:
  assumes "parse code = Inr tree"
      and "\<exists>n \<in> set (walk tree). node_cls n = Import \<or> node_cls n = ImportFrom"
  shows "\<exists>n \<in> set (walk tree). (node_cls n = Import \<or> node_cls n = ImportFrom) \<and>
           validate_model_file parse code False =
             (case get_line code (lineno n) of
                Inl e \<Rightarrow> Inl e
              | Inr line \<Rightarrow> Inl (ModelFileException (import_message (lineno n) line)))"
  using check_nodes_import [OF assms(2), of code] assms(1)
  by (simp add: validate_model_file_def)

lemma load_dbmodel_not_executed:
  assumes "validate_model_file parse code allow_imports = Inl (ModelFileException msg)"
  shows "load_dbmodel parse exec_module code allow_imports = Inl (SystemExitText msg 1)"
  using assms by (simp add: load_dbmodel_def)

lemma splitlines_formfeed_source: "splitlines formfeed_source = [[], [], u ''import os'']"
  by (simp add: formfeed_source_def u_def is_linebreak_def)

lemma walk_formfeed_tree:
  "walk (Node OtherNode 0 [Node Import 2 [Node OtherNode 0 []]]) =
     [Node OtherNode 0 [Node Import 2 [Node OtherNode 0 []]], Node Import 2 [Node OtherNode 0 []],
      Node OtherNode 0 []]"
  by (simp add: walk_def)

lemma str_nat_2: "str_nat 2 = ''2''"
  by code_simp

text \<open>
  C4. For the model file \<open>\f\nimport os\n\<close> the parser places the import statement on
  line 2. Validation without imports allowed raises with that line number, and with the
  text of the second line as \<open>splitlines\<close> counts them, which is empty: the form feed is a
  line boundary for \<open>splitlines\<close> and not for the parser. The text \<open>import os\<close> is the third
  line of \<open>splitlines\<close>.
\<close>

theorem validate_model_file_formfeed:
  "formfeed_source = [12, 10] @ u ''import os'' @ [10]
   \<and> formfeed_parse formfeed_source = Inr (Node OtherNode 0 [Node Import 2 [Node OtherNode 0 []]])
   \<and> validate_model_file formfeed_parse formfeed_source False =
       Inl (ModelFileException (u ''Invalid model: import statement found on line 2:'' @ [10] @ []))
   \<and> splitlines formfeed_source = [[], [], u ''import os'']
   \<and> validate_model_file formfeed_parse formfeed_source True = Inr ()"
proof -
  have "get_line formfeed_source 2 = Inr []"
    by (simp add: get_line_def splitlines_formfeed_source Let_def)
  then have "validate_model_file formfeed_parse formfeed_source False =
       Inl (ModelFileException (u ''Invalid model: import statement found on line 2:'' @ [10] @ []))"
    by (simp add: validate_model_file_def formfeed_parse_def walk_formfeed_tree formfeed_tree_def
          import_message_def str_nat_2 u_def)
  moreover have "formfeed_parse formfeed_source = Inr (Node OtherNode 0 [Node Import 2 [Node OtherNode 0 []]])"
    by (simp add: formfeed_parse_def formfeed_tree_def)
  ultimately show ?thesis
    by (simp add: splitlines_formfeed_source validate_model_file_def) (simp add: formfeed_source_def)
qed

section \<open>Enum lookup tables: materialization and reading back\<close>


lemma create_enum_tables_loop_collision:
  assumes "table_name_from_enum (enum_name e) \<in> set (map table_name metadata)"
  shows "create_enum_tables_loop metadata ets (e # enums) =
     Inl (InvalidRequestError (table_name_from_enum (enum_name e)))"
  using assms by (simp add: Let_def)















section \<open>Type mappings\<close>

lemma visitor_eq:
  "visitor f ct tn c =
     (case mapped_type f c of None \<Rightarrow> ct | Some v \<Rightarrow> set_item2 ct tn (col_name c) v)"
  by (simp add: visitor_def mapped_type_def)

lemma get_item_default_update [simp]:
  "get_item_default (AList.update k v al) k = v"
  by (simp add: get_item_default_def update_conv')

lemma fold_upd_field_none:
  "\<forall>c \<in> set cs. mapped_type f c = None \<Longrightarrow> foldl (upd_field f) m cs = m"
  by (induction cs arbitrary: m) (simp_all add: upd_field_def)

lemma visit_table_columns:
  "foldl (\<lambda>acc c. visitor f acc tn c) acc cols =
     (if \<exists>c \<in> set cols. mapped_type f c \<noteq> None
      then AList.update tn (foldl (upd_field f) (get_item_default acc tn) cols) acc
      else acc)"
proof (induction cols arbitrary: acc)
  case Nil
  then show ?case by simp
next
  case (Cons c cs)
  show ?case
  proof (cases "mapped_type f c")
    case None
    then have "visitor f acc tn c = acc" "\<And>m. upd_field f m c = m"
      by (simp_all add: visitor_eq upd_field_def)
    with None show ?thesis by (simp add: Cons.IH)
  next
    case (Some v)
    then have "visitor f acc tn c =
                 AList.update tn (AList.update (col_name c) v (get_item_default acc tn)) acc"
      "\<And>m. upd_field f m c = AList.update (col_name c) v m"
      by (simp_all add: visitor_eq upd_field_def set_item2_def)
    with Some show ?thesis by (simp add: Cons.IH fold_upd_field_none)
  qed
qed

lemma update_append_notin:
  "k \<notin> fst ` set al \<Longrightarrow> AList.update k v al = al @ [(k, v)]"
  by (induction al) auto

lemma fold_upd_field:
  assumes "distinct (map fst m @ map col_name cols)"
  shows "foldl (upd_field f) m cols =
           m @ map (\<lambda>c. (col_name c, the (mapped_type f c))) (filter (\<lambda>c. mapped_type f c \<noteq> None) cols)"
  using assms
proof (induction cols arbitrary: m)
  case Nil
  then show ?case by simp
next
  case (Cons c cs)
  show ?case
  proof (cases "mapped_type f c")
    case None
    from Cons.prems have "distinct (map fst m @ map col_name cs)" by auto
    from Cons.IH [OF this] None show ?thesis by (simp add: upd_field_def)
  next
    case (Some v)
    from Cons.prems have n: "col_name c \<notin> fst ` set m" by auto
    from Cons.prems have "distinct (map fst (m @ [(col_name c, v)]) @ map col_name cs)" by auto
    from Cons.IH [OF this] Some n show ?thesis
      by (simp add: upd_field_def update_append_notin)
  qed
qed

lemma visit_columns_eq:
  assumes "distinct (map fst acc @ map table_name tables)"
      and "\<forall>t \<in> set tables. distinct (map col_name (table_columns t))"
  shows "visit_columns tables (visitor f) acc =
           acc @ map (\<lambda>t. (table_name t, table_fields f t))
                   (filter (\<lambda>t. \<exists>c \<in> set (table_columns t). mapped_type f c \<noteq> None) tables)"
  using assms unfolding visit_columns_def
proof (induction tables arbitrary: acc)
  case Nil
  then show ?case by simp
next
  case (Cons t ts)
  let ?acc1 = "foldl (\<lambda>acc c. visitor f acc (table_name t) c) acc (table_columns t)"
  from Cons.prems have n: "table_name t \<notin> fst ` set acc" by auto
  then have "map_of acc (table_name t) = None"
    by (simp add: map_of_eq_None_iff)
  then have g: "get_item_default acc (table_name t) = []"
    by (simp add: get_item_default_def)
  from Cons.prems have dc: "distinct (map fst ([] :: (string \<times> string) list) @ map col_name (table_columns t))"
    by simp
  have acc1: "?acc1 = (if \<exists>c \<in> set (table_columns t). mapped_type f c \<noteq> None
                       then acc @ [(table_name t, table_fields f t)] else acc)"
    unfolding visit_table_columns g fold_upd_field [OF dc]
    using n by (simp add: update_append_notin table_fields_def)
  from Cons.prems have "distinct (map fst ?acc1 @ map table_name ts)"
    unfolding acc1 by auto
  from Cons.IH [OF this] Cons.prems(2) show ?case
    by (simp add: acc1)
qed

lemma map_insort_key: "map f (insort_key f x xs) = insort (f x) (map f xs)"
  by (induction xs) simp_all

lemma map_sort_key: "map f (sort_key f xs) = sort (map f xs)"
  by (induction xs) (simp_all add: map_insort_key)

lemma sort_by_keys_map:
  assumes "distinct (map k xs)"
  shows "sort_by_keys (map (\<lambda>x. (k x, g x)) xs) = map (\<lambda>x. (k x, g x)) (sort_key k xs)"
proof -
  have m: "map_of (map (\<lambda>x. (k x, g x)) xs) (k x) = Some (g x)" if "x \<in> set xs" for x
  proof (rule map_of_is_SomeI)
    show "distinct (map fst (map (\<lambda>x. (k x, g x)) xs))"
      using assms by (simp add: comp_def)
    show "(k x, g x) \<in> set (map (\<lambda>x. (k x, g x)) xs)"
      using that by auto
  qed
  have "sort_by_keys (map (\<lambda>x. (k x, g x)) xs) =
          map (\<lambda>kk. (kk, the (map_of (map (\<lambda>x. (k x, g x)) xs) kk))) (map k (sort_key k xs))"
    by (simp add: sort_by_keys_def comp_def map_sort_key)
  also have "\<dots> = map (\<lambda>x. (k x, g x)) (sort_key k xs)"
    by (simp add: m)
  finally show ?thesis .
qed

lemma get_type_mappings_eq:
  assumes "distinct (map table_name tables)"
      and "\<forall>t \<in> set tables. distinct (map col_name (table_columns t))"
  defines "f \<equiv> (\<lambda>filter_types. case filter_types of None \<Rightarrow> [TF_enum, TF_boolean] | Some f \<Rightarrow> f)"
  shows "get_type_mappings tables filter_types =
           map (\<lambda>t. (table_name t,
                      map (\<lambda>c. (col_name c, the (mapped_type (f filter_types) c)))
                          (mapped_columns (f filter_types) t)))
               (mapped_tables (f filter_types) tables)"
proof -
  let ?f = "f filter_types"
  let ?T = "filter (\<lambda>t. \<exists>c \<in> set (table_columns t). mapped_type ?f c \<noteq> None) tables"
  let ?M = "map (\<lambda>t. (table_name t, table_fields ?f t)) ?T"
  have M: "visit_columns tables (visitor ?f) [] = ?M"
    using visit_columns_eq [of "[]" tables ?f] assms(1,2) by simp
  have dT: "distinct (map table_name ?T)"
    using assms(1) by (simp add: distinct_map_filter)
  have g: "get_item_default ?M (table_name t) = table_fields ?f t" if "t \<in> set ?T" for t
  proof -
    have "map_of ?M (table_name t) = Some (table_fields ?f t)"
    proof (rule map_of_is_SomeI)
      show "distinct (map fst ?M)"
        using dT by (simp add: comp_def)
      show "(table_name t, table_fields ?f t) \<in> set ?M"
        using that by auto
    qed
    then show ?thesis by (simp add: get_item_default_def)
  qed
  have s: "sort_by_keys (table_fields ?f t) =
             map (\<lambda>c. (col_name c, the (mapped_type ?f c))) (mapped_columns ?f t)" if "t \<in> set tables" for t
  proof -
    from assms(2) that have "distinct (map col_name (filter (\<lambda>c. mapped_type ?f c \<noteq> None) (table_columns t)))"
      by (simp add: distinct_map_filter)
    from sort_by_keys_map [OF this] show ?thesis
      by (simp add: table_fields_def mapped_columns_def)
  qed
  have "get_type_mappings tables filter_types =
          map (\<lambda>(name, _). (name, sort_by_keys (get_item_default ?M name))) (sort_by_keys ?M)"
    using M by (simp add: get_type_mappings_def f_def Let_def)
  also have "sort_by_keys ?M = map (\<lambda>t. (table_name t, table_fields ?f t)) (sort_key table_name ?T)"
    by (rule sort_by_keys_map [OF dT])
  also have "map (\<lambda>(name, _). (name, sort_by_keys (get_item_default ?M name)))
               (map (\<lambda>t. (table_name t, table_fields ?f t)) (sort_key table_name ?T)) =
             map (\<lambda>t. (table_name t, map (\<lambda>c. (col_name c, the (mapped_type ?f c))) (mapped_columns ?f t)))
               (sort_key table_name ?T)"
    using g s by (auto simp: comp_def)
  finally show ?thesis by (simp add: mapped_tables_def)
qed

section \<open>Views over the tables with enum columns\<close>

lemma create_enum_tables_loop_Inr:
  "create_enum_tables_loop metadata ets enums = Inr (metadata', ets') \<Longrightarrow>
     ets' = ets @ map enum_table_of enums"
proof (induction enums arbitrary: metadata ets)
  case Nil
  then show ?case by simp
next
  case (Cons e enums)
  from Cons.prems have
    "create_enum_tables_loop (metadata @ [lookup_table e]) (ets @ [enum_table_of e]) enums = Inr (metadata', ets')"
    by (simp add: Let_def lookup_table_def enum_table_of_def split: if_splits)
  from Cons.IH [OF this] show ?case by simp
qed

lemma map_of_key_fun:
  "map_of (map (\<lambda>x. (k x, h (k x))) xs) n = (if n \<in> k ` set xs then Some (h n) else None)"
  by (induction xs) auto

lemma enum_table_lookup_eq:
  "enum_table_lookup (map enum_table_of enums) n =
     (if n \<in> set (map enum_name enums) then Some (table_name_from_enum n) else None)"
proof -
  have "rev (map (\<lambda>et. (enum_name (et_enum et), table_name (et_table et))) (map enum_table_of enums)) =
          map (\<lambda>e. (enum_name e, table_name_from_enum (enum_name e))) (rev enums)"
    by (simp add: rev_map comp_def enum_table_of_def lookup_table_def)
  then show ?thesis
    using map_of_key_fun [of enum_name table_name_from_enum "rev enums" n]
    by (simp add: enum_table_lookup_def)
qed

lemma foldl_add_field:
  "foldl (add_field lookup) view fs =
     view\<lparr>view_selects := view_selects view @
              map (\<lambda>(column, ename). str_option (lookup ename) @ ''.name as '' @ column @ ''_name'') fs,
          view_joins := view_joins view @
              map (\<lambda>(column, ename). ''LEFT JOIN '' @ str_option (lookup ename) @ '' ON t.'' @ column @
                     '' = '' @ str_option (lookup ename) @ ''.value'') fs\<rparr>"
proof (induction fs arbitrary: view)
  case Nil
  then show ?case by simp
next
  case (Cons p fs)
  obtain column ename where p: "p = (column, ename)" by (cases p)
  have a: "foldl (add_field lookup) view (p # fs) =
          foldl (add_field lookup) (add_field lookup view p) fs"
    by simp
  show ?case
    unfolding a Cons.IH [of "add_field lookup view p"]
    by (simp add: p add_field_def Let_def)
qed

lemma mapped_type_enum_only:
  "mapped_type [TF_enum] c =
     (if is_IntegerEnum (col_type c) then Some (field_data_name (col_type c)) else None)"
  by (simp add: mapped_type_def)

lemma shop_tables_distinct:
  "distinct (map table_name [orders, customers])"
  "\<forall>t \<in> set [orders, customers]. distinct (map col_name (table_columns t))"
  by (simp_all add: orders_def customers_def orders_columns_def)

lemma shop_enum_registered:
  "\<forall>t \<in> set [orders, customers]. \<forall>c \<in> set (table_columns t). \<forall>e. col_type c = IntegerEnum e \<longrightarrow>
     enum_name e \<in> set (map enum_name [OrderStatus])"
  by (simp add: orders_def customers_def orders_columns_def)

text \<open>
  C7. The model's tables have distinct names, each table's columns have distinct names, and
  every enum-typed column refers to an enumeration of the model, whose lookup tables have
  been created. Then view generation executes exactly one statement for every table that
  has an enum-typed column, in the order of the table names, and none for the other tables.
  The statement is \<open>CREATE OR REPLACE VIEW enumed_<table>_view\<close>, selecting \<open>t.*\<close> and,
  for each enum-typed column in the order of the column names, the lookup table's \<open>name\<close>
  as \<open><column>_name\<close>, with one \<open>LEFT JOIN\<close> per enum-typed column on
  \<open>t.<column> = <lookup table>.value\<close>.
\<close>

theorem one_view_per_table_with_enum_columns:
  assumes "distinct (map table_name tables)"
      and "\<forall>t \<in> set tables. distinct (map col_name (table_columns t))"
      and "\<forall>t \<in> set tables. \<forall>c \<in> set (table_columns t). \<forall>e. col_type c = IntegerEnum e \<longrightarrow>
             enum_name e \<in> set (map enum_name enums)"
      and "create_enum_tables engine enums = Inr (engine', enum_tables)"
  shows "generate_views enum_tables (get_type_mappings tables (Some [TF_enum])) =
     map (\<lambda>t. ''CREATE OR REPLACE VIEW enumed_'' @ table_name t @ ''_view AS SELECT t.*, '' @
               join '', ''
                 (map (\<lambda>c. ''enum_'' @ camel_to_snake (field_data_name (col_type c)) @
                            ''.name as '' @ col_name c @ ''_name'')
                      (sort_key col_name (filter (\<lambda>c. is_IntegerEnum (col_type c)) (table_columns t)))) @
               '' FROM '' @ table_name t @ '' t '' @
               join '' ''
                 (map (\<lambda>c. ''LEFT JOIN enum_'' @ camel_to_snake (field_data_name (col_type c)) @
                            '' ON t.'' @ col_name c @ '' = enum_'' @
                            camel_to_snake (field_data_name (col_type c)) @ ''.value'')
                      (sort_key col_name (filter (\<lambda>c. is_IntegerEnum (col_type c)) (table_columns t)))))
         (sort_key table_name
            (filter (\<lambda>t. \<exists>c \<in> set (table_columns t). is_IntegerEnum (col_type c)) tables))"
proof -
  from assms(4) have ets: "enum_tables = map enum_table_of enums"
    by (auto simp: create_enum_tables_def split: sum.splits dest: create_enum_tables_loop_Inr)
  have mc: "mapped_columns [TF_enum] t =
              sort_key col_name (filter (\<lambda>c. is_IntegerEnum (col_type c)) (table_columns t))" for t
    by (simp add: mapped_columns_def mapped_type_enum_only)
  have mt: "mapped_tables [TF_enum] tables =
              sort_key table_name (filter (\<lambda>t. \<exists>c \<in> set (table_columns t). is_IntegerEnum (col_type c)) tables)"
    by (simp add: mapped_tables_def mapped_type_enum_only)
  have lk: "str_option (enum_table_lookup enum_tables (field_data_name (col_type c))) =
              ''enum_'' @ camel_to_snake (field_data_name (col_type c))"
    if "t \<in> set tables" "c \<in> set (table_columns t)" "is_IntegerEnum (col_type c)" for t c
  proof -
    from that(3) obtain e where e: "col_type c = IntegerEnum e" by (cases "col_type c") simp_all
    with assms(3) that have "enum_name e \<in> set (map enum_name enums)" by blast
    with e show ?thesis
      by (simp add: ets enum_table_lookup_eq str_option_def table_name_from_enum_def)
  qed
  let ?ecs = "\<lambda>t. sort_key col_name (filter (\<lambda>c. is_IntegerEnum (col_type c)) (table_columns t))"
  let ?T = "sort_key table_name
              (filter (\<lambda>t. \<exists>c \<in> set (table_columns t). is_IntegerEnum (col_type c)) tables)"
  have u: "get_type_mappings tables (Some [TF_enum]) =
             map (\<lambda>t. (table_name t, map (\<lambda>c. (col_name c, field_data_name (col_type c))) (?ecs t))) ?T"
    unfolding get_type_mappings_eq [OF assms(1,2)]
    by (simp add: mt mc mapped_type_enum_only cong: map_cong)
  have q: "view_query (foldl (add_field (enum_table_lookup enum_tables)) (make_view (table_name t))
                         (map (\<lambda>c. (col_name c, field_data_name (col_type c))) (?ecs t))) =
           ''CREATE OR REPLACE VIEW enumed_'' @ table_name t @ ''_view AS SELECT t.*, '' @
               join '', ''
                 (map (\<lambda>c. ''enum_'' @ camel_to_snake (field_data_name (col_type c)) @
                            ''.name as '' @ col_name c @ ''_name'') (?ecs t)) @
               '' FROM '' @ table_name t @ '' t '' @
               join '' ''
                 (map (\<lambda>c. ''LEFT JOIN enum_'' @ camel_to_snake (field_data_name (col_type c)) @
                            '' ON t.'' @ col_name c @ '' = enum_'' @
                            camel_to_snake (field_data_name (col_type c)) @ ''.value'') (?ecs t))"
    if t: "t \<in> set ?T" for t
  proof -
    from t have tt: "t \<in> set tables" by simp
    have sel: "map (\<lambda>(column, ename). str_option (enum_table_lookup enum_tables ename) @
                       ''.name as '' @ column @ ''_name'')
                 (map (\<lambda>c. (col_name c, field_data_name (col_type c))) (?ecs t)) =
               map (\<lambda>c. ''enum_'' @ camel_to_snake (field_data_name (col_type c)) @
                            ''.name as '' @ col_name c @ ''_name'') (?ecs t)"
      using lk [OF tt] by (simp add: comp_def cong: map_cong)
    have jn: "map (\<lambda>(column, ename). ''LEFT JOIN '' @ str_option (enum_table_lookup enum_tables ename) @
                       '' ON t.'' @ column @ '' = '' @
                       str_option (enum_table_lookup enum_tables ename) @ ''.value'')
                 (map (\<lambda>c. (col_name c, field_data_name (col_type c))) (?ecs t)) =
               map (\<lambda>c. ''LEFT JOIN enum_'' @ camel_to_snake (field_data_name (col_type c)) @
                            '' ON t.'' @ col_name c @ '' = enum_'' @
                            camel_to_snake (field_data_name (col_type c)) @ ''.value'') (?ecs t)"
      using lk [OF tt] by (simp add: comp_def cong: map_cong)
    show ?thesis
      unfolding foldl_add_field sel jn
      by (simp add: view_query_def make_view_def)
  qed
  show ?thesis
    unfolding u generate_views_def
    using q by (simp add: comp_def cong: map_cong)
qed

theorem one_view_per_table_with_enum_columns_witness:
  "distinct (map table_name [orders, customers])
   \<and> (\<exists>engine' enum_tables.
         create_enum_tables empty_db [OrderStatus] = Inr (engine', enum_tables) \<and>
         generate_views enum_tables (get_type_mappings [orders, customers] (Some [TF_enum])) =
           [''CREATE OR REPLACE VIEW enumed_orders_view AS SELECT t.*, enum_order_status.name as status_name FROM orders t LEFT JOIN enum_order_status ON t.status = enum_order_status.value''])"
proof -
  obtain engine' enum_tables where
    c: "create_enum_tables empty_db [OrderStatus] = Inr (engine', enum_tables)"
    by (simp add: create_enum_tables_def Let_def)
  have "generate_views enum_tables (get_type_mappings [orders, customers] (Some [TF_enum])) =
           [''CREATE OR REPLACE VIEW enumed_orders_view AS SELECT t.*, enum_order_status.name as status_name FROM orders t LEFT JOIN enum_order_status ON t.status = enum_order_status.value'']"
    unfolding one_view_per_table_with_enum_columns
      [OF shop_tables_distinct shop_enum_registered c]
    by code_simp
  with c shop_tables_distinct(1) show ?thesis by blast
qed

section \<open>The generator configuration\<close>

lemma foldl_add_value_name:
  "td_name (foldl add_value s names) = td_name s \<and> td_package (foldl add_value s names) = td_package s"
  by (induction names arbitrary: s) (simp_all add: add_value_def)

lemma mapped_type_default:
  "mapped_type [TF_enum, TF_boolean] c =
     (if is_IntegerEnum (col_type c) then Some (field_data_name (col_type c))
      else if col_type c = Boolean then Some ''BOOLEAN'' else None)"
  by (simp add: mapped_type_def)

lemma type_fqn_eq:
  "type_fqn (EnumCodeGenerator_init enums enum_package converter_package) n =
     (if n \<in> set (map (\<lambda>p. enum_name (snd p)) (ec_items enums)) then enum_package @ ''.'' @ n else n)"
proof -
  let ?tds = "map (adjust_enum enum_package converter_package) (map snd (ec_items enums))"
  let ?al = "rev (map (\<lambda>enum. (td_name enum, enum)) ?tds)"
  have nm: "td_name (adjust_enum enum_package converter_package e) = enum_name e"
       and pk: "td_package (adjust_enum enum_package converter_package e) = Some enum_package" for e
    using with_values_fold [of "NumericEnumTemplateData_init (enum_name e)" "enum_values e"]
    by (simp_all add: adjust_enum_def with_enum_package_def with_enum_converter_package_def
          with_values_def NumericEnumTemplateData_init_def foldl_add_value_name)
  have keys: "fst ` set ?al = set (map (\<lambda>p. enum_name (snd p)) (ec_items enums))"
    by (force simp: nm)
  show ?thesis
  proof (cases "n \<in> set (map (\<lambda>p. enum_name (snd p)) (ec_items enums))")
    case True
    with keys have "map_of ?al n \<noteq> None"
      by (simp add: map_of_eq_None_iff)
    then obtain td where td: "map_of ?al n = Some td" by auto
    from map_of_SomeD [OF td] have "td_name td = n" "td_package td = Some enum_package"
      by (auto simp: pk)
    with td True show ?thesis
      by (simp add: type_fqn_def enums_by_name_def EnumCodeGenerator_init_def
            adjust_enums_from_model_def enum_fqn_def str_option_def)
  next
    case False
    with keys have "map_of ?al n = None"
      by (simp add: map_of_eq_None_iff)
    with False show ?thesis
      by (simp add: type_fqn_def enums_by_name_def EnumCodeGenerator_init_def
            adjust_enums_from_model_def)
  qed
qed

text \<open>
  C8. Under the same conditions on the model, the \<open>field_data\<close> of the generator
  configuration, built from the type mappings with the default filter, has one entry for
  every enum-typed and every boolean column and none for any other column (binary columns
  among them), tables and columns in the order of their names. The entry of an enum-typed
  column maps \<open><table>\.<column>\<close> to the enum package, a dot and the enum's name, which
  differs from the enum's name alone, the type name the type mappings hold for it.
\<close>

theorem enum_columns_map_to_fqn:
  assumes "distinct (map table_name tables)"
      and "\<forall>t \<in> set tables. distinct (map col_name (table_columns t))"
      and "\<forall>t \<in> set tables. \<forall>c \<in> set (table_columns t). \<forall>e. col_type c = IntegerEnum e \<longrightarrow>
             enum_name e \<in> set (map (\<lambda>p. enum_name (snd p)) (ec_items enums))"
  shows "jooq_field_data (EnumCodeGenerator_init enums enum_package converter_package)
           (get_type_mappings tables None) =
         concat (map (\<lambda>t.
            map (\<lambda>c. \<lparr>ft_expression = table_name t @ [CHR 0x5C] @ ''.'' @ col_name c,
                       ft_name = (if is_IntegerEnum (col_type c)
                                  then enum_package @ ''.'' @ field_data_name (col_type c)
                                  else if ''BOOLEAN'' \<in> set (map (\<lambda>p. enum_name (snd p)) (ec_items enums))
                                  then enum_package @ ''.BOOLEAN'' else ''BOOLEAN'')\<rparr>)
                (sort_key col_name
                   (filter (\<lambda>c. is_IntegerEnum (col_type c) \<or> col_type c = Boolean) (table_columns t))))
            (sort_key table_name
               (filter (\<lambda>t. \<exists>c \<in> set (table_columns t). is_IntegerEnum (col_type c) \<or> col_type c = Boolean)
                  tables)))
       \<and> enum_package @ ''.'' @ n \<noteq> n"
proof -
  let ?cg = "EnumCodeGenerator_init enums enum_package converter_package"
  let ?mcs = "\<lambda>t. sort_key col_name
                   (filter (\<lambda>c. is_IntegerEnum (col_type c) \<or> col_type c = Boolean) (table_columns t))"
  let ?T = "sort_key table_name
               (filter (\<lambda>t. \<exists>c \<in> set (table_columns t). is_IntegerEnum (col_type c) \<or> col_type c = Boolean)
                  tables)"
  have mc: "mapped_columns [TF_enum, TF_boolean] t = ?mcs t" for t
    unfolding mapped_columns_def mapped_type_default
    by (rule arg_cong [where f = "sort_key col_name"], rule filter_cong) auto
  have mt: "mapped_tables [TF_enum, TF_boolean] tables = ?T"
    unfolding mapped_tables_def mapped_type_default
    by (rule arg_cong [where f = "sort_key table_name"], rule filter_cong) auto
  have u: "get_type_mappings tables None =
             map (\<lambda>t. (table_name t,
                        map (\<lambda>c. (col_name c, the (mapped_type [TF_enum, TF_boolean] c))) (?mcs t))) ?T"
    unfolding get_type_mappings_eq [OF assms(1,2)] by (simp add: mt mc)
  have row: "map (\<lambda>(column, type_name). jooq_forced_type_data (table_name t) column (type_fqn ?cg type_name))
               (map (\<lambda>c. (col_name c, the (mapped_type [TF_enum, TF_boolean] c))) (?mcs t)) =
             map (\<lambda>c. \<lparr>ft_expression = table_name t @ [CHR 0x5C] @ ''.'' @ col_name c,
                       ft_name = (if is_IntegerEnum (col_type c)
                                  then enum_package @ ''.'' @ field_data_name (col_type c)
                                  else if ''BOOLEAN'' \<in> set (map (\<lambda>p. enum_name (snd p)) (ec_items enums))
                                  then enum_package @ ''.BOOLEAN'' else ''BOOLEAN'')\<rparr>) (?mcs t)"
    if t: "t \<in> set ?T" for t
  proof -
    from t have tt: "t \<in> set tables" by simp
    have "type_fqn ?cg (the (mapped_type [TF_enum, TF_boolean] c)) =
            (if is_IntegerEnum (col_type c)
             then enum_package @ ''.'' @ field_data_name (col_type c)
             else if ''BOOLEAN'' \<in> set (map (\<lambda>p. enum_name (snd p)) (ec_items enums))
             then enum_package @ ''.BOOLEAN'' else ''BOOLEAN'')"
      if c: "c \<in> set (?mcs t)" for c
    proof (cases "is_IntegerEnum (col_type c)")
      case True
      then obtain e where e: "col_type c = IntegerEnum e" by (cases "col_type c") simp_all
      from c have "c \<in> set (table_columns t)" by simp
      with assms(3) tt e have "enum_name e \<in> set (map (\<lambda>p. enum_name (snd p)) (ec_items enums))"
        by blast
      with e show ?thesis by (simp add: mapped_type_default type_fqn_eq)
    next
      case False
      with c have "col_type c = Boolean" by simp
      with False show ?thesis by (simp add: mapped_type_default type_fqn_eq)
    qed
    then show ?thesis
      by (simp add: comp_def jooq_forced_type_data_def cong: map_cong)
  qed
  let ?F = "\<lambda>t. map (\<lambda>(column, type_name).
                                  jooq_forced_type_data (table_name t) column (type_fqn ?cg type_name))
                               (map (\<lambda>c. (col_name c, the (mapped_type [TF_enum, TF_boolean] c))) (?mcs t))"
  let ?G = "\<lambda>t. map (\<lambda>c. \<lparr>ft_expression = table_name t @ [CHR 0x5C] @ ''.'' @ col_name c,
                       ft_name = (if is_IntegerEnum (col_type c)
                                  then enum_package @ ''.'' @ field_data_name (col_type c)
                                  else if ''BOOLEAN'' \<in> set (map (\<lambda>p. enum_name (snd p)) (ec_items enums))
                                  then enum_package @ ''.BOOLEAN'' else ''BOOLEAN'')\<rparr>) (?mcs t)"
  have "jooq_field_data ?cg (get_type_mappings tables None) = concat (map ?F ?T)"
    unfolding u jooq_field_data_def by (simp add: comp_def)
  also have "concat (map ?F ?T) = concat (map ?G ?T)"
  proof (rule arg_cong [where f = concat], rule map_cong [OF refl])
    fix t assume t: "t \<in> set ?T"
    show "?F t = ?G t" by (rule row [OF t])
  qed
  finally have main: "jooq_field_data ?cg (get_type_mappings tables None) = concat (map ?G ?T)" .
  have "length (enum_package @ ''.'' @ n) \<noteq> length n" by simp
  then have "enum_package @ ''.'' @ n \<noteq> n" by metis
  with main show ?thesis by blast
qed

theorem enum_columns_map_to_fqn_witness:
  "distinct (map table_name [orders, customers])
   \<and> jooq_field_data (EnumCodeGenerator_init shop_enums ''com.shop.enums'' ''com.shop.enums.converters'')
       (get_type_mappings [orders, customers] None) =
       [\<lparr>ft_expression = ''customers'' @ [CHR 0x5C] @ ''.active'', ft_name = ''BOOLEAN''\<rparr>,
        \<lparr>ft_expression = ''orders'' @ [CHR 0x5C] @ ''.status'', ft_name = ''com.shop.enums.OrderStatus''\<rparr>]"
proof -
  have r: "\<forall>t \<in> set [orders, customers]. \<forall>c \<in> set (table_columns t). \<forall>e. col_type c = IntegerEnum e \<longrightarrow>
             enum_name e \<in> set (map (\<lambda>p. enum_name (snd p)) (ec_items shop_enums))"
    by (simp add: orders_def customers_def orders_columns_def shop_enums_def OrderStatus_def)
  have "jooq_field_data (EnumCodeGenerator_init shop_enums ''com.shop.enums'' ''com.shop.enums.converters'')
       (get_type_mappings [orders, customers] None) =
       [\<lparr>ft_expression = ''customers'' @ [CHR 0x5C] @ ''.active'', ft_name = ''BOOLEAN''\<rparr>,
        \<lparr>ft_expression = ''orders'' @ [CHR 0x5C] @ ''.status'', ft_name = ''com.shop.enums.OrderStatus''\<rparr>]"
    unfolding enum_columns_map_to_fqn [OF shop_tables_distinct r, THEN conjunct1]
    by code_simp
  with shop_tables_distinct(1) show ?thesis by blast
qed


section \<open>Lines without trailing whitespace\<close>









section \<open>The store during DDL compilation\<close>

lemma nth_append_range:
  "map ((!) (xs @ ys)) [length xs ..< length xs + length ys] = ys"
  by (rule nth_equalityI) (simp_all add: nth_append)

lemma deepcopy_tables_appends:
  "deepcopy_tables h ts = (ts', h') \<Longrightarrow>
     (\<exists>ext. h' = h @ ext) \<and>
     concat (map to_columns ts') = [length h ..< length h'] \<and>
     map to_name ts' = map to_name ts \<and> map to_constraints ts' = map to_constraints ts"
proof (induction ts arbitrary: h ts' h')
  case Nil
  then show ?case by simp
next
  case (Cons t ts)
  let ?h1 = "h @ map (\<lambda>a. h ! a) (to_columns t)"
  obtain ts1 h2 where r: "deepcopy_tables ?h1 ts = (ts1, h2)"
    by (cases "deepcopy_tables ?h1 ts")
  with Cons.prems have ts': "ts' = t\<lparr>to_columns := [length h ..< length h + length (to_columns t)]\<rparr> # ts1"
    and h': "h' = h2"
    by (simp_all add: Let_def)
  from Cons.IH [OF r] obtain ext where
    e: "h2 = ?h1 @ ext" and
    c: "concat (map to_columns ts1) = [length ?h1 ..< length h2]" and
    n: "map to_name ts1 = map to_name ts" "map to_constraints ts1 = map to_constraints ts"
    by blast
  have "[length h ..< length h + length (to_columns t)] @ [length ?h1 ..< length h2] = [length h ..< length h2]"
    using e upt_add_eq_append [of "length h" "length h + length (to_columns t)" "length ext"]
    by (simp add: add.assoc)
  with e c n ts' h' show ?case by simp
qed

lemma deepcopy_tables_values:
  assumes "deepcopy_tables h ts = (ts', h')"
      and "\<forall>t \<in> set ts. \<forall>a \<in> set (to_columns t). a < length h"
  shows "map (\<lambda>t. map ((!) h') (to_columns t)) ts' = map (\<lambda>t. map ((!) h) (to_columns t)) ts"
  using assms
proof (induction ts arbitrary: h ts' h')
  case Nil
  then show ?case by simp
next
  case (Cons t ts)
  let ?new = "map (\<lambda>a. h ! a) (to_columns t)"
  let ?h1 = "h @ ?new"
  obtain ts1 h2 where r: "deepcopy_tables ?h1 ts = (ts1, h2)"
    by (cases "deepcopy_tables ?h1 ts")
  with Cons.prems have ts': "ts' = t\<lparr>to_columns := [length h ..< length h + length (to_columns t)]\<rparr> # ts1"
    and h': "h' = h2"
    by (simp_all add: Let_def)
  from deepcopy_tables_appends [OF r] obtain ext where e: "h2 = ?h1 @ ext" by blast
  from Cons.prems(2) have w1: "\<forall>t \<in> set ts. \<forall>a \<in> set (to_columns t). a < length ?h1"
    by (simp add: trans_less_add1)
  have a: "map (\<lambda>t. map ((!) ?h1) (to_columns t)) ts = map (\<lambda>t. map ((!) h) (to_columns t)) ts"
    using Cons.prems(2) by (auto simp: nth_append)
  have "map ((!) h2) [length h ..< length h + length (to_columns t)] =
          map ((!) ?h1) [length h ..< length h + length ?new]"
    unfolding e by (auto simp: nth_append)
  also have "\<dots> = ?new" by (rule nth_append_range)
  finally have b: "map ((!) h2) [length h ..< length h + length (to_columns t)] = map ((!) h) (to_columns t)"
    by simp
  from Cons.IH [OF r w1] a b ts' h' show ?case by simp
qed

lemma foldl_concat:
  "foldl (\<lambda>acc t. foldl f acc (k t)) acc ts = foldl f acc (concat (map k ts))"
  by (induction ts arbitrary: acc) simp_all

lemma foldl_update_length:
  "length (foldl (\<lambda>heap a. heap[a := g (heap ! a)]) h as) = length h"
  by (induction as arbitrary: h) simp_all

lemma foldl_update_nth:
  assumes "distinct as" and "i < length h"
  shows "foldl (\<lambda>heap a. heap[a := g (heap ! a)]) h as ! i = (if i \<in> set as then g (h ! i) else h ! i)"
  using assms
proof (induction as arbitrary: h)
  case Nil
  then show ?case by simp
next
  case (Cons a as)
  from Cons.prems have "distinct as" "i < length (h[a := g (h ! a)])" by simp_all
  from Cons.IH [OF this] Cons.prems show ?case
    by (cases "i = a") (auto simp: nth_list_update)
qed

lemma foldl_listen:
  assumes "model < length (metadata_heap s)"
  shows "foldl (\<lambda>s proc. listen s model (f proc)) s procs =
           s\<lparr>metadata_heap := (metadata_heap s)[model :=
                (metadata_heap s ! model)\<lparr>md_after_create :=
                   md_after_create (metadata_heap s ! model) @ map f procs\<rparr>]\<rparr>"
  using assms
proof (induction procs arbitrary: s)
  case Nil
  then show ?case by simp
next
  case (Cons p procs)
  have "model < length (metadata_heap (listen s model (f p)))"
    using Cons.prems by (simp add: listen_def)
  from Cons.IH [OF this] Cons.prems show ?case
    by (simp add: listen_def)
qed


lemma map_eq_nth:
  assumes "map f xs = map g ys" and "i < length xs"
  shows "f (xs ! i) = g (ys ! i)"
proof -
  from assms(1) have "length xs = length ys" by (rule map_eq_imp_length_eq)
  with assms show ?thesis by (metis nth_map)
qed

lemma visit_column_mysql: "visit_column [visitor_mysql_datetime] = mysql_column"
  by (rule ext) (simp add: visit_column_def mysql_column_def)

lemma adapt_mysql:
  assumes a: "adapt_model_to_engine s self ''mysql'' for_text = (model, s')"
  defines "m \<equiv> metadata_heap s ! self"
  shows "model = length (metadata_heap s)"
    and "take (length (columns_heap s)) (columns_heap s') = columns_heap s"
    and "length (columns_heap s) \<le> length (columns_heap s')"
    and "\<exists>ts'. metadata_heap s' = metadata_heap s @
            [\<lparr>md_tables = ts', md_enums = md_enums m, md_table_names = md_table_names m,
              md_stored_procedures = md_stored_procedures m,
              md_after_create = map (\<lambda>proc. if for_text then creation_statement proc else sp_sql proc)
                                  (md_stored_procedures m)\<rparr>] \<and>
          (wf_store s self \<longrightarrow>
             map (table_view s') ts' = map (adapted_table ''mysql'') (model_tables s self))"
proof -
  let ?h = "columns_heap s"
  let ?n = "length ?h"
  obtain ts' h' where dc: "deepcopy_tables ?h (md_tables m) = (ts', h')"
    by (cases "deepcopy_tables ?h (md_tables m)")
  let ?mc = "length (metadata_heap s)"
  let ?m1 = "getstate m ts'"
  let ?s1 = "s\<lparr>columns_heap := h', metadata_heap := metadata_heap s @ [?m1]\<rparr>"
  have d: "deepcopy s self = (?mc, ?s1)"
    using dc by (simp add: deepcopy_def m_def Let_def)
  let ?upd = "\<lambda>heap a. heap[a := mysql_column (heap ! a)]"
  let ?h2 = "foldl ?upd h' [?n ..< length h']"
  from deepcopy_tables_appends [OF dc] obtain ext where
    ext: "h' = ?h @ ext" and
    cc: "concat (map to_columns ts') = [?n ..< length h']" and
    nm: "map to_name ts' = map to_name (md_tables m)"
        "map to_constraints ts' = map to_constraints (md_tables m)"
    by blast
  let ?s2 = "?s1\<lparr>columns_heap := ?h2\<rparr>"
  have v: "visit_columns_store ?s1 ?mc [visitor_mysql_datetime] = ?s2"
    by (simp add: visit_columns_store_def visit_column_mysql getstate_def foldl_concat cc)
  let ?f = "\<lambda>proc. if for_text then creation_statement proc else sp_sql proc"
  let ?m3 = "?m1\<lparr>md_after_create := md_after_create ?m1 @ map ?f (md_stored_procedures m)\<rparr>"
  let ?s3 = "?s2\<lparr>metadata_heap := (metadata_heap ?s2)[?mc := ?m3]\<rparr>"
  have l: "foldl (\<lambda>s proc. listen s ?mc (?f proc)) ?s2 (md_stored_procedures (metadata_heap ?s2 ! ?mc)) = ?s3"
    using foldl_listen [of ?mc ?s2 ?f "md_stored_procedures m"]
    by (simp add: getstate_def)
  from a have pe: "(?mc, ?s3) = (model, s')"
    unfolding adapt_model_to_engine_def visitors_per_engine_def
    by (simp only: simp_thms if_True if_False option.case list.simps d prod.case Let_def
          foldl.simps v l)
  from pe [unfolded prod.inject] have r: "model = ?mc" "s' = ?s3"
    by blast+
  show "model = length (metadata_heap s)" by (rule r)
  have len2: "length ?h2 = length h'" by (rule foldl_update_length)
  have nth2: "?h2 ! i = (if ?n \<le> i then mysql_column (h' ! i) else h' ! i)" if "i < length h'" for i
    using foldl_update_nth [of "[?n ..< length h']" i h' mysql_column] that by simp
  have lh: "?n \<le> length h'" using ext by simp
  have pre: "h' ! i = ?h ! i" if "i < ?n" for i
    using ext that by (simp add: nth_append)
  have ch: "columns_heap s' = ?h2" unfolding r by simp
  show "take (length (columns_heap s)) (columns_heap s') = columns_heap s"
  proof (rule nth_equalityI)
    show "length (take ?n (columns_heap s')) = length ?h"
      using lh by (simp add: ch len2)
  next
    fix i assume "i < length (take ?n (columns_heap s'))"
    then have i: "i < ?n" by simp
    with lh have "i < length h'" by simp
    from nth2 [OF this] i pre [OF i] show "take ?n (columns_heap s') ! i = ?h ! i"
      by (simp add: ch)
  qed
  show "length (columns_heap s) \<le> length (columns_heap s')"
    using lh by (simp add: ch len2)
  have md: "metadata_heap s' = metadata_heap s @
            [\<lparr>md_tables = ts', md_enums = md_enums m, md_table_names = md_table_names m,
              md_stored_procedures = md_stored_procedures m,
              md_after_create = map ?f (md_stored_procedures m)\<rparr>]"
    unfolding r by (simp add: getstate_def)
  have views: "map (table_view s') ts' = map (adapted_table ''mysql'') (model_tables s self)"
    if wf: "wf_store s self"
  proof (rule nth_equalityI)
    from nm(1) have len: "length ts' = length (md_tables m)" by (rule map_eq_imp_length_eq)
    then show "length (map (table_view s') ts') = length (map (adapted_table ''mysql'') (model_tables s self))"
      by (simp add: model_tables_def m_def)
    fix i assume "i < length (map (table_view s') ts')"
    then have i: "i < length ts'" by simp
    with len have i': "i < length (md_tables m)" by simp
    let ?t' = "ts' ! i" and ?t = "md_tables m ! i"
    from wf have "\<forall>t \<in> set (md_tables m). \<forall>a \<in> set (to_columns t). a < ?n"
      by (simp add: wf_store_def m_def)
    from deepcopy_tables_values [OF dc this]
    have vals: "map ((!) h') (to_columns ?t') = map ((!) ?h) (to_columns ?t)"
      by (rule map_eq_nth) (rule i)
    from i have "set (to_columns ?t') \<subseteq> set (concat (map to_columns ts'))"
      by (auto intro!: bexI [of _ ?t'])
    then have rng: "\<forall>a \<in> set (to_columns ?t'). ?n \<le> a \<and> a < length h'"
      unfolding cc by auto
    then have "map ((!) ?h2) (to_columns ?t') = map mysql_column (map ((!) h') (to_columns ?t'))"
      by (simp add: nth2)
    with vals have cols: "map ((!) (columns_heap s')) (to_columns ?t') =
                            map mysql_column (map ((!) ?h) (to_columns ?t))"
      by (simp add: ch)
    from nm i have "to_name ?t' = to_name ?t" "to_constraints ?t' = to_constraints ?t"
      by (auto dest: map_eq_nth)
    with cols i i' show "map (table_view s') ts' ! i = map (adapted_table ''mysql'') (model_tables s self) ! i"
      by (simp add: table_view_def adapted_table_def model_tables_def m_def mysql_column_def comp_def)
  qed
  from md views show "\<exists>ts'. metadata_heap s' = metadata_heap s @
            [\<lparr>md_tables = ts', md_enums = md_enums m, md_table_names = md_table_names m,
              md_stored_procedures = md_stored_procedures m,
              md_after_create = map ?f (md_stored_procedures m)\<rparr>] \<and>
          (wf_store s self \<longrightarrow>
             map (table_view s') ts' = map (adapted_table ''mysql'') (model_tables s self))"
    by blast
qed

lemma adapt_other:
  assumes "engine \<noteq> ''mysql''"
  shows "adapt_model_to_engine s self engine for_text = (self, s)"
  using assms by (simp add: adapt_model_to_engine_def visitors_per_engine_def)


lemma ddl_result:
  assumes d: "ddl create_engine s self engine_name = (r, s')"
  defines "m \<equiv> metadata_heap s ! self"
  shows "take (length (columns_heap s)) (columns_heap s') = columns_heap s"
    and "take (length (metadata_heap s)) (metadata_heap s') = metadata_heap s"
    and "length (columns_heap s) \<le> length (columns_heap s')"
    and "length (metadata_heap s) \<le> length (metadata_heap s')"
    and "wf_store s self \<Longrightarrow>
           r = ddl_text create_engine engine_name (model_tables s self)
                 (md_stored_procedures m) (md_after_create m)"
proof -
  have "take (length (columns_heap s)) (columns_heap s') = columns_heap s \<and>
        take (length (metadata_heap s)) (metadata_heap s') = metadata_heap s \<and>
        length (columns_heap s) \<le> length (columns_heap s') \<and>
        length (metadata_heap s) \<le> length (metadata_heap s') \<and>
        (wf_store s self \<longrightarrow>
           r = ddl_text create_engine engine_name (model_tables s self)
                 (md_stored_procedures m) (md_after_create m))"
  proof (cases "create_engine engine_name")
    case None
    with d show ?thesis by (auto simp: ddl_def ddl_text_def)
  next
    case (Some compile)
    obtain model s1 where a: "adapt_model_to_engine s self engine_name True = (model, s1)"
      by (cases "adapt_model_to_engine s self engine_name True")
    from d have pe: "(Inr (multiline_rstrip (join (u '';'' @ [10, 10])
                 (map (\<lambda>sql. strip (compile sql))
                    (map (\<lambda>t. CreateTable (table_view s1 t)) (md_tables (metadata_heap s1 ! model)) @
                     map DDL (md_after_create (metadata_heap s1 ! model)))))), s1) = (r, s')"
      unfolding ddl_def by (simp only: Some a option.case prod.case Let_def)
    from pe [unfolded prod.inject] have s': "s' = s1"
      and r: "r = Inr (multiline_rstrip (join (u '';'' @ [10, 10])
                 (map (\<lambda>sql. strip (compile sql))
                    (map (\<lambda>t. CreateTable (table_view s1 t)) (md_tables (metadata_heap s1 ! model)) @
                     map DDL (md_after_create (metadata_heap s1 ! model))))))"
      by blast+
    show ?thesis
    proof (cases "engine_name = ''mysql''")
      case True
      note am = adapt_mysql [OF a [unfolded True], folded m_def]
      from am(4) obtain ts' where
        mh: "metadata_heap s1 = metadata_heap s @
            [\<lparr>md_tables = ts', md_enums = md_enums m, md_table_names = md_table_names m,
              md_stored_procedures = md_stored_procedures m,
              md_after_create = map (\<lambda>proc. if True then creation_statement proc else sp_sql proc)
                                  (md_stored_procedures m)\<rparr>]"
        and vw: "wf_store s self \<longrightarrow>
             map (table_view s1) ts' = map (adapted_table ''mysql'') (model_tables s self)"
        by blast
      have st: "map (\<lambda>t. CreateTable (table_view s1 t)) (md_tables (metadata_heap s1 ! model)) @
                map DDL (md_after_create (metadata_heap s1 ! model)) =
                ddl_statements engine_name (model_tables s self) (md_stored_procedures m) (md_after_create m)"
        if "wf_store s self"
      proof -
        from vw that have "map (table_view s1) ts' = map (adapted_table ''mysql'') (model_tables s self)"
          by blast
        then have "map CreateTable (map (table_view s1) ts') =
                     map CreateTable (map (adapted_table ''mysql'') (model_tables s self))"
          by (rule arg_cong)
        then have "map (\<lambda>t. CreateTable (table_view s1 t)) ts' =
                             map (\<lambda>t. CreateTable (adapted_table ''mysql'' t)) (model_tables s self)"
          by (simp add: comp_def)
        then show ?thesis
          by (simp add: am(1) mh ddl_statements_def True)
      qed
      have rr: "wf_store s self \<longrightarrow>
           r = ddl_text create_engine engine_name (model_tables s self)
                 (md_stored_procedures m) (md_after_create m)"
      proof
        assume wf: "wf_store s self"
        show "r = ddl_text create_engine engine_name (model_tables s self)
                 (md_stored_procedures m) (md_after_create m)"
          by (simp only: r ddl_text_def Some option.case st [OF wf])
      qed
      have "take (length (metadata_heap s)) (metadata_heap s1) = metadata_heap s"
        "length (metadata_heap s) \<le> length (metadata_heap s1)"
        by (simp_all add: mh)
      with am(2,3) rr show ?thesis
        unfolding s' by blast
    next
      case False
      with a adapt_other [of engine_name s self True] have e: "model = self" "s1 = s" by simp_all
      from False have "map (\<lambda>t. CreateTable (table_view s t)) (md_tables m) @ map DDL (md_after_create m) =
              ddl_statements engine_name (model_tables s self) (md_stored_procedures m) (md_after_create m)"
        by (simp add: ddl_statements_def model_tables_def adapted_table_def comp_def m_def)
      then have "r = ddl_text create_engine engine_name (model_tables s self)
                 (md_stored_procedures m) (md_after_create m)"
        by (simp only: r ddl_text_def Some option.case e m_def)
      then show ?thesis
        unfolding s' e by simp
    qed
  qed
  then show "take (length (columns_heap s)) (columns_heap s') = columns_heap s"
    and "take (length (metadata_heap s)) (metadata_heap s') = metadata_heap s"
    and "length (columns_heap s) \<le> length (columns_heap s')"
    and "length (metadata_heap s) \<le> length (metadata_heap s')"
    and "wf_store s self \<Longrightarrow>
           r = ddl_text create_engine engine_name (model_tables s self)
                 (md_stored_procedures m) (md_after_create m)"
    by blast+
qed

lemma take_prefix_nth:
  assumes "take n xs = ys" and "i < length ys"
  shows "xs ! i = ys ! i"
  using assms by (metis length_take min_less_iff_conj nth_take)

lemma unchanged_model:
  assumes "take (length (columns_heap s)) (columns_heap s') = columns_heap s"
      and "take (length (metadata_heap s)) (metadata_heap s') = metadata_heap s"
      and "length (columns_heap s) \<le> length (columns_heap s')"
      and "length (metadata_heap s) \<le> length (metadata_heap s')"
      and wf: "wf_store s self"
  shows "metadata_heap s' ! self = metadata_heap s ! self"
    and "model_tables s' self = model_tables s self"
    and "wf_store s' self"
proof -
  from wf have sl: "self < length (metadata_heap s)" by (simp add: wf_store_def)
  with take_prefix_nth [OF assms(2)] show m: "metadata_heap s' ! self = metadata_heap s ! self"
    by simp
  from wf have ad: "\<forall>t \<in> set (md_tables (metadata_heap s ! self)).
                      \<forall>a \<in> set (to_columns t). a < length (columns_heap s)"
    by (simp add: wf_store_def)
  then have "table_view s' t = table_view s t" if "t \<in> set (md_tables (metadata_heap s ! self))" for t
    using that take_prefix_nth [OF assms(1)] by (simp add: table_view_def)
  then show "model_tables s' self = model_tables s self"
    by (simp add: model_tables_def m)
  from sl ad assms(3,4) show "wf_store s' self"
    by (fastforce simp: wf_store_def m)
qed

lemma wf_shop_store: "wf_store shop_store 0"
  by (simp add: wf_store_def shop_store_def)


text \<open>
  C9. When \<open>ddl\<close> returns, every column and every metadata object that was in the store
  before the call is as it was. For a model without dangling references this means: the
  metadata object (its tables, enums, table names, stored procedures and listeners) and
  the tables with their columns and column types are equal to their values before the
  call. For the engine \<open>mysql\<close> the adaptation took place on another object, the copy:
  its tables are the model's with every \<open>DateTime\<close> column type replaced by
  \<open>DATETIME(3)\<close>, and its \<open>after_create\<close> listeners are the creation statements of the
  stored procedures.
\<close>

theorem ddl_leaves_model_unchanged:
  assumes d: "ddl create_engine s self engine_name = (r, s')"
  shows "take (length (columns_heap s)) (columns_heap s') = columns_heap s \<and>
         take (length (metadata_heap s)) (metadata_heap s') = metadata_heap s \<and>
         (wf_store s self \<longrightarrow>
            metadata_heap s' ! self = metadata_heap s ! self \<and>
            model_tables s' self = model_tables s self \<and> wf_store s' self) \<and>
         (wf_store s self \<and> engine_name = ''mysql'' \<and> create_engine engine_name \<noteq> None \<longrightarrow>
            (\<exists>copy. copy \<noteq> self \<and> adapt_model_to_engine s self engine_name True = (copy, s') \<and>
               model_tables s' copy = map (adapted_table ''mysql'') (model_tables s self) \<and>
               md_after_create (metadata_heap s' ! copy) =
                 map creation_statement (md_stored_procedures (metadata_heap s ! self))))"
proof -
  note p = ddl_result(1-4) [OF d]
  have u: "wf_store s self \<longrightarrow>
            metadata_heap s' ! self = metadata_heap s ! self \<and>
            model_tables s' self = model_tables s self \<and> wf_store s' self"
    using unchanged_model [OF p] by blast
  have c: "\<exists>copy. copy \<noteq> self \<and> adapt_model_to_engine s self engine_name True = (copy, s') \<and>
               model_tables s' copy = map (adapted_table ''mysql'') (model_tables s self) \<and>
               md_after_create (metadata_heap s' ! copy) =
                 map creation_statement (md_stored_procedures (metadata_heap s ! self))"
    if wf: "wf_store s self" and e: "engine_name = ''mysql''" and ce: "create_engine engine_name \<noteq> None"
  proof -
    obtain copy s1 where a: "adapt_model_to_engine s self engine_name True = (copy, s1)"
      by (cases "adapt_model_to_engine s self engine_name True")
    from ce obtain compile where "create_engine engine_name = Some compile" by auto
    with d a have s': "s' = s1"
      by (simp add: ddl_def Let_def)
    note am = adapt_mysql [OF a [unfolded e]]
    from am(4) wf obtain ts' where
      mh: "metadata_heap s1 = metadata_heap s @
            [\<lparr>md_tables = ts', md_enums = md_enums (metadata_heap s ! self),
              md_table_names = md_table_names (metadata_heap s ! self),
              md_stored_procedures = md_stored_procedures (metadata_heap s ! self),
              md_after_create = map (\<lambda>proc. if True then creation_statement proc else sp_sql proc)
                                  (md_stored_procedures (metadata_heap s ! self))\<rparr>]"
      and vw: "map (table_view s1) ts' = map (adapted_table ''mysql'') (model_tables s self)"
      by blast
    from wf have "self < length (metadata_heap s)" by (simp add: wf_store_def)
    with am(1) have "copy \<noteq> self" by simp
    moreover from mh vw am(1) have "model_tables s1 copy = map (adapted_table ''mysql'') (model_tables s self)"
      by (simp add: model_tables_def)
    moreover from mh am(1) have "md_after_create (metadata_heap s1 ! copy) =
                 map creation_statement (md_stored_procedures (metadata_heap s ! self))"
      by simp
    ultimately show ?thesis using a s' by blast
  qed
  from p(1,2) u c show ?thesis by blast
qed

theorem ddl_leaves_model_unchanged_witness:
  "wf_store shop_store 0 \<and> toy_create_engine ''mysql'' \<noteq> None
   \<and> model_tables (snd (ddl toy_create_engine shop_store 0 ''mysql'')) 0 = model_tables shop_store 0
   \<and> map (\<lambda>t. map col_type (table_columns t)) (model_tables shop_store 0) =
       [[Integer, IntegerEnum OrderStatus, DateTime]]
   \<and> metadata_heap (snd (ddl toy_create_engine shop_store 0 ''mysql'')) ! 0 = metadata_heap shop_store ! 0
   \<and> (\<exists>copy. copy \<noteq> 0 \<and>
         map (\<lambda>t. map col_type (table_columns t))
           (model_tables (snd (ddl toy_create_engine shop_store 0 ''mysql'')) copy) =
         [[Integer, IntegerEnum OrderStatus, MYSQL_DATETIME 3]])"
proof -
  obtain r s' where d: "ddl toy_create_engine shop_store 0 ''mysql'' = (r, s')"
    by (cases "ddl toy_create_engine shop_store 0 ''mysql''")
  have ce: "toy_create_engine ''mysql'' \<noteq> None"
    by (simp add: toy_create_engine_def)
  have o: "map (\<lambda>t. map col_type (table_columns t)) (model_tables shop_store 0) =
       [[Integer, IntegerEnum OrderStatus, DateTime]]"
    by (simp add: model_tables_def shop_store_def table_view_def)
  have a: "map (\<lambda>t. map col_type (table_columns t))
             (map (adapted_table ''mysql'') (model_tables shop_store 0)) =
           [[Integer, IntegerEnum OrderStatus, MYSQL_DATETIME 3]]"
    by (simp add: model_tables_def shop_store_def table_view_def adapted_table_def
          visitor_mysql_datetime_def)
  from ddl_leaves_model_unchanged [OF d] wf_shop_store ce
  have u: "metadata_heap s' ! 0 = metadata_heap shop_store ! 0"
      "model_tables s' 0 = model_tables shop_store 0"
    and "\<exists>copy. copy \<noteq> 0 \<and>
           model_tables s' copy = map (adapted_table ''mysql'') (model_tables shop_store 0)"
    by blast+
  with a have "\<exists>copy. copy \<noteq> 0 \<and>
         map (\<lambda>t. map col_type (table_columns t)) (model_tables s' copy) =
         [[Integer, IntegerEnum OrderStatus, MYSQL_DATETIME 3]]"
    by metis
  with u o ce wf_shop_store show ?thesis
    unfolding d snd_conv by blast
qed




end
